theory Spec2Isabelle
  imports Complex_Main "HOL-Library.AList" "HOL-Library.Multiset"
begin

section \<open>Python values and errors\<close>

text \<open>
  The module is Python 2 (it relies on \<^verbatim>\<open>__cmp__\<close> and \<^verbatim>\<open>cmp\<close>). Floats are
  idealised as reals, except in \<open>movenode\<close>, whose model rounds every operation; \<^verbatim>\<open>None\<close> is \<open>None\<close>. Every exception the modelled code can
  raise is a value of \<open>error\<close>; a computation on a state returns either the new
  state or the exception together with the state reached when it was raised (Python
  keeps the mutations done before a raise).
\<close>

datatype error = KeyError | TypeError | IndexError | ValueError | AttributeError

type_synonym position = "real option \<times> real option \<times> real option"

fun py_sub :: "real option \<Rightarrow> real option \<Rightarrow> error + real" where
  "py_sub (Some a) (Some b) = Inr (a - b)"
| "py_sub _ _ = Inl TypeError"

definition hypot :: "real \<Rightarrow> real \<Rightarrow> real" where
  \<comment> \<open>\<^verbatim>\<open>math.hypot\<close> over the reals\<close>
  "hypot a b = sqrt (a\<^sup>2 + b\<^sup>2)"

section \<open>BasicRangeModel.calcdistance\<close>

definition calcdistance :: "position \<Rightarrow> position \<Rightarrow> error + real" where
  "calcdistance p1 p2 =
     (case p1 of (x1, y1, z1) \<Rightarrow> case p2 of (x2, y2, z2) \<Rightarrow>
        (case py_sub x1 x2 of Inl e \<Rightarrow> Inl e | Inr a \<Rightarrow>
         (case py_sub y1 y2 of Inl e \<Rightarrow> Inl e | Inr b \<Rightarrow>
            (let c = (case z1 of None \<Rightarrow> 0
                      | Some v1 \<Rightarrow> (case z2 of None \<Rightarrow> 0 | Some v2 \<Rightarrow> v1 - v2))
             in Inr (hypot (hypot a b) c)))))"

definition zterm :: "real option \<Rightarrow> real option \<Rightarrow> real" where
  \<comment> \<open>the difference on the z axis that the code uses: dropped as soon as one side is absent\<close>
  "zterm z1 z2 = (case z1 of None \<Rightarrow> 0 | Some v1 \<Rightarrow> (case z2 of None \<Rightarrow> 0 | Some v2 \<Rightarrow> v1 - v2))"

definition zero_if_absent :: "real option \<Rightarrow> real" where
  "zero_if_absent z = (case z of None \<Rightarrow> 0 | Some v \<Rightarrow> v)"

definition spec_distance :: "real \<times> real \<times> real option \<Rightarrow> real \<times> real \<times> real option \<Rightarrow> real" where
  \<comment> \<open>the distance in the specification's words: each absent z replaced by 0 in the z term\<close>
  "spec_distance p1 p2 =
     (case p1 of (x1, y1, z1) \<Rightarrow> case p2 of (x2, y2, z2) \<Rightarrow>
        sqrt ((x1 - x2)\<^sup>2 + (y1 - y2)\<^sup>2 + (zero_if_absent z1 - zero_if_absent z2)\<^sup>2))"

section \<open>Python strings and \<^verbatim>\<open>int()\<close>\<close>

text \<open>
  The string methods and the built-in \<^verbatim>\<open>int\<close> that the parsers call, on byte strings
  (\<^verbatim>\<open>str\<close> of Python 2): \<^verbatim>\<open>s.strip()\<close>, \<^verbatim>\<open>s.split(sep)\<close>, \<^verbatim>\<open>s.split()\<close>,
  \<^verbatim>\<open>s.index(c)\<close>, \<^verbatim>\<open>s[i:j]\<close> and \<^verbatim>\<open>int(s)\<close> in base 10 (optional surrounding
  white space, an optional sign, then at least one decimal digit).
\<close>

definition is_space :: "char \<Rightarrow> bool" where
  "is_space c = (c = CHR '' '' \<or> c = CHR 0x09 \<or> c = CHR 0x0A \<or> c = CHR 0x0B
                 \<or> c = CHR 0x0C \<or> c = CHR 0x0D)"

definition strip :: "string \<Rightarrow> string" where
  "strip s = rev (dropWhile is_space (rev (dropWhile is_space s)))"

fun split_on :: "char \<Rightarrow> string \<Rightarrow> string list" where
  "split_on sep [] = [[]]"
| "split_on sep (c # cs) =
     (if c = sep then [] # split_on sep cs
      else (case split_on sep cs of [] \<Rightarrow> [[c]] | p # ps \<Rightarrow> (c # p) # ps))"

definition is_digit :: "char \<Rightarrow> bool" where
  "is_digit c = (48 \<le> (of_char c :: nat) \<and> (of_char c :: nat) \<le> 57)"

definition digit_value :: "char \<Rightarrow> int" where
  "digit_value c = int (of_char c) - 48"

fun decimal :: "int \<Rightarrow> string \<Rightarrow> int option" where
  "decimal acc [] = Some acc"
| "decimal acc (c # cs) = (if is_digit c then decimal (10 * acc + digit_value c) cs else None)"

definition pyint :: "string \<Rightarrow> error + int" where
  "pyint s =
     (let t = strip s;
          neg = (t \<noteq> [] \<and> hd t = CHR ''-'');
          body = (if t \<noteq> [] \<and> (hd t = CHR ''-'' \<or> hd t = CHR ''+'') then tl t else t)
      in if body = [] then Inl ValueError
         else (case decimal 0 body of
                 None \<Rightarrow> Inl ValueError
               | Some v \<Rightarrow> Inr (if neg then - v else v)))"

section \<open>Ns2ScriptedMobility.parsemap and map\<close>

text \<open>
  \<open>parsemap_loop\<close> is the \<^verbatim>\<open>for pair in mapstr.split(',')\<close> loop: the first entry
  that raises \<open>ValueError\<close> ends the loop through the \<^verbatim>\<open>return\<close> of the handler, and
  the dictionary built so far stays in \<^verbatim>\<open>self.nodemap\<close>. In the assignment
  \<^verbatim>\<open>self.nodemap[int(parts[0])] = int(parts[1])\<close> Python evaluates the right side first.
\<close>

fun parsemap_loop :: "(int \<rightharpoonup> int) \<Rightarrow> string list \<Rightarrow> (int \<rightharpoonup> int)" where
  "parsemap_loop nodemap [] = nodemap"
| "parsemap_loop nodemap (pair # rest) =
     (let parts = split_on CHR '':'' pair
      in if length parts \<noteq> 2 then nodemap
         else (case pyint (parts ! 1) of
                 Inl e \<Rightarrow> nodemap
               | Inr dst \<Rightarrow>
                   (case pyint (parts ! 0) of
                      Inl e \<Rightarrow> nodemap
                    | Inr src \<Rightarrow> parsemap_loop (nodemap(src \<mapsto> dst)) rest)))"

definition parsemap :: "string \<Rightarrow> (int \<rightharpoonup> int)" where
  \<comment> \<open>the value of \<^verbatim>\<open>self.nodemap\<close> after \<^verbatim>\<open>parsemap(mapstr)\<close>\<close>
  "parsemap mapstr =
     (if strip mapstr = [] then Map.empty
      else parsemap_loop Map.empty (split_on CHR '','' mapstr))"

datatype nodearg = NodeNone | NodeInt int | NodeStr string

definition int_of_nodearg :: "nodearg \<Rightarrow> error + int" where
  \<comment> \<open>\<^verbatim>\<open>int(nodenum)\<close> on the values the callers pass: a number, a string or \<^verbatim>\<open>None\<close>\<close>
  "int_of_nodearg a =
     (case a of NodeNone \<Rightarrow> Inl TypeError | NodeInt n \<Rightarrow> Inr n | NodeStr s \<Rightarrow> pyint s)"

definition map_nodenum :: "(int \<rightharpoonup> int) \<Rightarrow> nodearg \<Rightarrow> error + int" where
  \<comment> \<open>\<^verbatim>\<open>Ns2ScriptedMobility.map\<close>\<close>
  "map_nodenum nodemap a =
     (case int_of_nodearg a of
        Inl e \<Rightarrow> Inl e
      | Inr nodenum \<Rightarrow> (case nodemap nodenum of Some d \<Rightarrow> Inr d | None \<Rightarrow> Inr nodenum))"

text \<open>
  The specification's reading of a map string: an entry is well formed when it is
  exactly two integers joined by one colon.
\<close>

definition parse_entry :: "string \<Rightarrow> (int \<times> int) option" where
  "parse_entry pair =
     (case split_on CHR '':'' pair of
        [a, b] \<Rightarrow> (case pyint a of Inl e \<Rightarrow> None
                    | Inr src \<Rightarrow> (case pyint b of Inl e \<Rightarrow> None | Inr dst \<Rightarrow> Some (src, dst)))
      | _ \<Rightarrow> None)"

definition well_formed_map :: "string \<Rightarrow> bool" where
  "well_formed_map mapstr = list_all (\<lambda>pair. parse_entry pair \<noteq> None) (split_on CHR '','' mapstr)"

definition kept_entries :: "string \<Rightarrow> (int \<times> int) list" where
  \<comment> \<open>the entries in front of the first malformed one\<close>
  "kept_entries mapstr =
     (if strip mapstr = [] then []
      else map the (takeWhile (\<lambda>r. r \<noteq> None) (map parse_entry (split_on CHR '','' mapstr))))"

definition all_entries :: "string \<Rightarrow> (int \<times> int) list" where
  "all_entries mapstr =
     (if strip mapstr = [] then [] else map the (map parse_entry (split_on CHR '','' mapstr)))"

section \<open>WayPointMobility.WayPoint and its ordering\<close>

datatype speed = Scalar real | Velocity real real
  \<comment> \<open>\<^verbatim>\<open>speed\<close> is a number or a velocity vector, of which the code reads the components 0 and 1\<close>

record WayPoint =
  time :: real
  nodenum :: int
  coords :: position
  speed :: speed

definition cmp :: "'a::linorder \<Rightarrow> 'a \<Rightarrow> int" where
  \<comment> \<open>the built-in \<^verbatim>\<open>cmp\<close> of Python 2\<close>
  "cmp a b = (if a < b then - 1 else if a = b then 0 else 1)"

definition WayPoint_cmp :: "WayPoint \<Rightarrow> WayPoint \<Rightarrow> int" where
  "WayPoint_cmp self other =
     (let tmp = cmp (time self) (time other)
      in if tmp = 0 then cmp (nodenum self) (nodenum other) else tmp)"

section \<open>The heap queue of the standard library\<close>

text \<open>
  \<^verbatim>\<open>heapq.heappush\<close> and \<^verbatim>\<open>heapq.heappop\<close> as Python 2.7 defines them
  (\<^verbatim>\<open>Lib/heapq.py\<close>), on a list used as an array. A class that only defines
  \<^verbatim>\<open>__cmp__\<close> has no \<^verbatim>\<open>__lt__\<close>, so \<^verbatim>\<open>cmp_lt(x, y)\<close> is \<^verbatim>\<open>not y <= x\<close>, which
  Python 2 decides with \<^verbatim>\<open>__cmp__\<close>. Every index the functions read is inside the list
  where they are called from \<open>heappush\<close> and \<open>heappop\<close>.
\<close>

definition cmp_lt :: "WayPoint \<Rightarrow> WayPoint \<Rightarrow> bool" where
  "cmp_lt x y = (\<not> WayPoint_cmp y x \<le> 0)"

function siftdown_loop :: "WayPoint list \<Rightarrow> nat \<Rightarrow> nat \<Rightarrow> WayPoint \<Rightarrow> WayPoint list" where
  "siftdown_loop heap startpos pos newitem =
     (if pos > startpos then
        (let parentpos = (pos - 1) div 2;
             parent = heap ! parentpos
         in if cmp_lt newitem parent
            then siftdown_loop (heap[pos := parent]) startpos parentpos newitem
            else heap[pos := newitem])
      else heap[pos := newitem])"
  by pat_completeness auto
termination
  by (relation "measure (\<lambda>(heap, startpos, pos, newitem). pos)") auto

declare siftdown_loop.simps [simp del]

definition siftdown :: "WayPoint list \<Rightarrow> nat \<Rightarrow> nat \<Rightarrow> WayPoint list" where
  \<comment> \<open>\<^verbatim>\<open>_siftdown(heap, startpos, pos)\<close>\<close>
  "siftdown heap startpos pos = siftdown_loop heap startpos pos (heap ! pos)"

function siftup_loop :: "WayPoint list \<Rightarrow> nat \<Rightarrow> WayPoint list \<times> nat" where
  "siftup_loop heap pos =
     (let endpos = length heap;
          childpos = 2 * pos + 1
      in if childpos < endpos then
           (let rightpos = childpos + 1;
                childpos = (if rightpos < endpos \<and> \<not> cmp_lt (heap ! childpos) (heap ! rightpos)
                            then rightpos else childpos)
            in siftup_loop (heap[pos := heap ! childpos]) childpos)
         else (heap, pos))"
  by pat_completeness auto
termination
  by (relation "measure (\<lambda>(heap, pos). length heap - pos)") auto

declare siftup_loop.simps [simp del]

definition siftup :: "WayPoint list \<Rightarrow> nat \<Rightarrow> WayPoint list" where
  \<comment> \<open>\<^verbatim>\<open>_siftup(heap, pos)\<close>: the smaller child moves up until a leaf, then the item sifts down from there\<close>
  "siftup heap pos =
     (let newitem = heap ! pos
      in case siftup_loop heap pos of
           (heap', leaf) \<Rightarrow> siftdown (heap'[leaf := newitem]) pos leaf)"

definition heappush :: "WayPoint list \<Rightarrow> WayPoint \<Rightarrow> WayPoint list" where
  "heappush heap item = siftdown (heap @ [item]) 0 (length (heap @ [item]) - 1)"

definition heappop :: "WayPoint list \<Rightarrow> error + (WayPoint \<times> WayPoint list)" where
  "heappop heap =
     (if heap = [] then Inl IndexError
      else (let lastelt = last heap;
                heap = butlast heap
            in if heap \<noteq> [] then Inr (heap ! 0, siftup (heap[0 := lastelt]) 0)
               else Inr (lastelt, heap)))"

lemma length_siftdown_loop [simp]:
  "length (siftdown_loop heap startpos pos newitem) = length heap"
  by (induction heap startpos pos newitem rule: siftdown_loop.induct)
     (subst siftdown_loop.simps, simp add: Let_def)

lemma length_siftup_loop [simp]: "length (fst (siftup_loop heap pos)) = length heap"
  by (induction heap pos rule: siftup_loop.induct)
     (subst siftup_loop.simps, simp add: Let_def)

lemma length_siftup [simp]: "length (siftup heap pos) = length heap"
  using length_siftup_loop [of heap pos]
  by (cases "siftup_loop heap pos") (simp add: siftup_def siftdown_def Let_def)

lemma length_heappop: "heappop heap = Inr (item, heap') \<Longrightarrow> Suc (length heap') = length heap"
  by (cases heap rule: rev_cases) (auto simp: heappop_def Let_def split: if_splits)

section \<open>Draining the queue\<close>

text \<open>
  The order of \<^verbatim>\<open>WayPoint.__cmp__\<close> as a relation: by time, ties by node id. \<open>drain\<close>
  pops the minimum with \<open>heappop\<close> until the queue is empty, which raises
  \<open>IndexError\<close>, and lists the waypoints in the order in which they come out. The
  predicates \<open>is_heap\<close>, \<open>heap_hole\<close> and \<open>hole_down\<close> are the invariants of the
  heap functions: the array is a binary heap (\<open>parent i\<close> holds the parent of \<open>i\<close>),
  a heap but for the item that \<open>siftdown_loop\<close> is moving up, a heap but for the
  position that \<open>siftup_loop\<close> is filling from below with \<open>smaller_child\<close>.
\<close>

definition wp_le :: "WayPoint \<Rightarrow> WayPoint \<Rightarrow> bool" where
  "wp_le x y = (time x < time y \<or> (time x = time y \<and> nodenum x \<le> nodenum y))"

definition parent :: "nat \<Rightarrow> nat" where
  "parent i = (i - 1) div 2"

definition is_heap :: "WayPoint list \<Rightarrow> bool" where
  "is_heap h = (\<forall>i. 0 < i \<and> i < length h \<longrightarrow> wp_le (h ! parent i) (h ! i))"

definition heap_hole :: "WayPoint list \<Rightarrow> nat \<Rightarrow> WayPoint \<Rightarrow> bool" where
  "heap_hole h pos new =
     (pos < length h
      \<and> (\<forall>i. 0 < i \<and> i < length h \<and> i \<noteq> pos \<longrightarrow>
             wp_le ((h[pos := new]) ! parent i) ((h[pos := new]) ! i))
      \<and> (\<forall>c. 0 < pos \<and> 0 < c \<and> c < length h \<and> parent c = pos \<longrightarrow>
             wp_le (h ! parent pos) (h ! c)))"

definition smaller_child :: "WayPoint list \<Rightarrow> nat \<Rightarrow> nat" where
  "smaller_child h pos =
     (if 2 * pos + 2 < length h \<and> \<not> cmp_lt (h ! (2 * pos + 1)) (h ! (2 * pos + 2))
      then 2 * pos + 2 else 2 * pos + 1)"

definition hole_down :: "WayPoint list \<Rightarrow> nat \<Rightarrow> bool" where
  "hole_down h pos =
     (pos < length h
      \<and> (\<forall>i. 0 < i \<and> i < length h \<and> i \<noteq> pos \<and> parent i \<noteq> pos \<longrightarrow>
             wp_le (h ! parent i) (h ! i))
      \<and> (\<forall>c. 0 < pos \<and> 0 < c \<and> c < length h \<and> parent c = pos \<longrightarrow>
             wp_le (h ! parent pos) (h ! c)))"

function drain :: "WayPoint list \<Rightarrow> WayPoint list" where
  "drain heap = (case heappop heap of Inl e \<Rightarrow> [] | Inr (item, heap') \<Rightarrow> item # drain heap')"
  by pat_completeness auto
termination
  by (relation "measure length") (auto dest: length_heappop)

declare drain.simps [simp del]

section \<open>WayPointMobility: the scheduler's state\<close>

text \<open>
  The fields of a \<^verbatim>\<open>WayPointMobility\<close> (with the node map of
  \<^verbatim>\<open>Ns2ScriptedMobility\<close>) and the part of its environment that its methods read and
  write: the position of every node (\<^verbatim>\<open>node.getposition()\<close>, \<^verbatim>\<open>node.position.set\<close>),
  the interfaces of the WLAN with the id of their node (\<^verbatim>\<open>self.wlan.netifs()\<close>), and
  the calls made to the session, recorded in order. \<open>lasttime\<close> and \<open>endtime\<close> start
  as \<^verbatim>\<open>None\<close>; \<open>timezero\<close> is \<open>None\<close> as long as the attribute has not been assigned.
\<close>

datatype model_state = STATE_STOPPED | STATE_RUNNING | STATE_PAUSED

datatype effect =
    BroadcastNode int position
  | UpdateWlans "int list" "nat list"
  | BroadcastEvent model_state int int

record mobility =
  state :: model_state
  queue :: "WayPoint list"
  queue_copy :: "WayPoint list"
  points :: "int \<rightharpoonup> WayPoint"
  initial :: "int \<rightharpoonup> WayPoint"
  lasttime :: "real option"
  timezero :: "real option"
  endtime :: "real option"
  loop :: bool
  refresh_ms :: int
  nodemap :: "int \<rightharpoonup> int"
  node_position :: "int \<Rightarrow> position"
  wlan_netifs :: "(nat \<times> int) list"
  effects :: "effect list"

definition outcome :: "(error \<times> mobility) + mobility \<Rightarrow> mobility" where
  \<comment> \<open>the state a call leaves behind, whether it returned or raised\<close>
  "outcome r = (case r of Inl (e, s) \<Rightarrow> s | Inr s \<Rightarrow> s)"

definition py_trunc :: "real \<Rightarrow> int" where
  \<comment> \<open>\<^verbatim>\<open>int(x)\<close> of a float: truncation towards zero\<close>
  "py_trunc r = (if 0 \<le> r then \<lfloor>r\<rfloor> else \<lceil>r\<rceil>)"

definition atan2 :: "real \<Rightarrow> real \<Rightarrow> real" where
  \<comment> \<open>\<^verbatim>\<open>math.atan2(y, x)\<close> over the reals\<close>
  "atan2 y x =
     (if 0 < x then arctan (y / x)
      else if x < 0 then (if 0 \<le> y then arctan (y / x) + pi else arctan (y / x) - pi)
      else if 0 < y then pi / 2
      else if y < 0 then - pi / 2
      else 0)"

definition sendevent :: "mobility \<Rightarrow> (error \<times> mobility) + mobility" where
  \<comment> \<open>\<^verbatim>\<open>MobilityManager.sendevent(model)\<close>: the event carries the state and the two times\<close>
  "sendevent s =
     (case timezero s of
        None \<Rightarrow> Inl (AttributeError, s)
      | Some tz \<Rightarrow>
          (case lasttime s of
             None \<Rightarrow> Inl (TypeError, s)
           | Some lt \<Rightarrow>
               (case endtime s of
                  None \<Rightarrow> Inl (TypeError, s)
                | Some e \<Rightarrow>
                    Inr (s\<lparr>effects := effects s
                           @ [BroadcastEvent (state s) (py_trunc (lt - tz)) (py_trunc e)]\<rparr>))))"

definition setnodeposition ::
  "mobility \<Rightarrow> int \<Rightarrow> real option \<Rightarrow> real option \<Rightarrow> real option \<Rightarrow> mobility" where
  "setnodeposition s node x y z =
     s\<lparr>node_position := (node_position s)(node := (x, y, z)),
       effects := effects s @ [BroadcastNode node (x, y, z)]\<rparr>"

fun movenodesinitial_loop ::
  "mobility \<Rightarrow> (nat \<times> int) list \<Rightarrow> int list \<Rightarrow> nat list \<Rightarrow> mobility \<times> int list \<times> nat list" where
  "movenodesinitial_loop s [] moved moved_netifs = (s, moved, moved_netifs)"
| "movenodesinitial_loop s ((netif, node) # rest) moved moved_netifs =
     (case initial s node of
        None \<Rightarrow> movenodesinitial_loop s rest moved moved_netifs
      | Some wp \<Rightarrow>
          (case coords wp of
             (x, y, z) \<Rightarrow>
               movenodesinitial_loop (setnodeposition s node x y z) rest
                 (moved @ [node]) (moved_netifs @ [netif])))"

definition movenodesinitial :: "mobility \<Rightarrow> mobility" where
  "movenodesinitial s =
     (case movenodesinitial_loop s (wlan_netifs s) [] [] of
        (s', moved, moved_netifs) \<Rightarrow>
          s'\<lparr>effects := effects s' @ [UpdateWlans moved moved_netifs]\<rparr>)"

definition addwaypoint ::
  "mobility \<Rightarrow> real \<Rightarrow> int \<Rightarrow> real option \<Rightarrow> real option \<Rightarrow> real option \<Rightarrow> speed \<Rightarrow> mobility" where
  "addwaypoint s t n x y z sp =
     s\<lparr>queue := heappush (queue s) \<lparr>time = t, nodenum = n, coords = (x, y, z), speed = sp\<rparr>\<rparr>"

definition addinitial ::
  "mobility \<Rightarrow> int \<Rightarrow> real option \<Rightarrow> real option \<Rightarrow> real option \<Rightarrow> mobility" where
  "addinitial s n x y z =
     s\<lparr>initial := (initial s)(n \<mapsto> \<lparr>time = 0, nodenum = n, coords = (x, y, z), speed = Scalar 0\<rparr>)\<rparr>"

function updatepoints :: "mobility \<Rightarrow> real \<Rightarrow> mobility" where
  "updatepoints s now =
     (if queue s = [] then s
      else if time (queue s ! 0) > now then s
      else (case heappop (queue s) of
              Inl e \<Rightarrow> s
            | Inr (wp, heap) \<Rightarrow>
                updatepoints (s\<lparr>queue := heap, points := (points s)(nodenum wp \<mapsto> wp)\<rparr>) now))"
  by pat_completeness auto
termination
  by (relation "measure (\<lambda>(s, now). length (queue s))") (auto dest: length_heappop)

declare updatepoints.simps [simp del]

definition copywaypoints :: "mobility \<Rightarrow> mobility" where
  "copywaypoints s = s\<lparr>queue_copy := queue s\<rparr>"

definition loopwaypoints :: "mobility \<Rightarrow> mobility \<times> bool" where
  "loopwaypoints s = (s\<lparr>queue := queue_copy s\<rparr>, loop s)"

definition stop :: "mobility \<Rightarrow> bool \<Rightarrow> (error \<times> mobility) + mobility" where
  "stop s move_initial =
     (let s = s\<lparr>state := STATE_STOPPED\<rparr>;
          s = fst (loopwaypoints s);
          s = s\<lparr>timezero := Some 0\<rparr>;
          s = s\<lparr>lasttime := Some 0\<rparr>;
          s = (if move_initial then movenodesinitial s else s)
      in sendevent s)"

definition pause :: "mobility \<Rightarrow> real \<Rightarrow> mobility" where
  \<comment> \<open>\<open>now\<close> is the value of \<^verbatim>\<open>time.time()\<close>\<close>
  "pause s now = s\<lparr>state := STATE_PAUSED, lasttime := Some now\<rparr>"

text \<open>
  \<open>movenode\<close> computes with floats. Each arithmetic operation and each function of
  \<^verbatim>\<open>math\<close> returns the exact result rounded to the number format: \<open>fl\<close> is that
  rounding, a parameter of the model. \<open>round_double\<close> is the rounding of Python's
  floats (IEEE 754 binary64, to nearest, ties to even) on the normal range: the result
  is the multiple of the unit in the last place nearest to the exact value.
  Comparisons, \<^verbatim>\<open>abs\<close> and the coordinates read from the node and the waypoint are
  exact.
\<close>

definition round_half_even :: "real \<Rightarrow> int" where
  "round_half_even r =
     (let f = \<lfloor>r\<rfloor>; d = r - of_int f
      in if d < 1 / 2 then f else if 1 / 2 < d then f + 1 else if even f then f else f + 1)"

definition round_double :: "real \<Rightarrow> real" where
  "round_double x =
     (if x = 0 then 0
      else (let ulp = 2 powr (of_int (\<lfloor>log 2 \<bar>x\<bar>\<rfloor> - 52))
            in of_int (round_half_even (x / ulp)) * ulp))"

definition movenode ::
  "(real \<Rightarrow> real) \<Rightarrow> mobility \<Rightarrow> int \<Rightarrow> real \<Rightarrow> (error \<times> mobility) + (bool \<times> mobility)" where
  "movenode fl s node dt =
     (case points s node of
        None \<Rightarrow> Inr (False, s)
      | Some wp \<Rightarrow>
     (case node_position s node of (x1, y1, z1) \<Rightarrow>
     (case coords wp of (x2, y2, z2) \<Rightarrow>
        if speed wp = Scalar 0
        then Inr (True, (setnodeposition s node x2 y2 z2)\<lparr>points := (points s)(node := None)\<rparr>)
        else
     (case x1 of None \<Rightarrow> Inl (TypeError, s) | Some a1 \<Rightarrow>
     (case y1 of None \<Rightarrow> Inl (TypeError, s) | Some b1 \<Rightarrow>
     (case x2 of None \<Rightarrow> Inl (TypeError, s) | Some a2 \<Rightarrow>
     (case y2 of None \<Rightarrow> Inl (TypeError, s) | Some b2 \<Rightarrow>
        (let sx = (case speed wp of
                     Scalar v \<Rightarrow> fl (v * fl (cos (fl (atan2 (fl (b2 - b1)) (fl (a2 - a1))))))
                   | Velocity vx vy \<Rightarrow> vx);
             sy = (case speed wp of
                     Scalar v \<Rightarrow> fl (v * fl (sin (fl (atan2 (fl (b2 - b1)) (fl (a2 - a1))))))
                   | Velocity vx vy \<Rightarrow> vy);
             dx = fl (sx * dt);
             dy = fl (sy * dt);
             dx = (if \<bar>dx\<bar> > \<bar>fl (a2 - a1)\<bar> then fl (a2 - a1) else dx);
             dy = (if \<bar>dy\<bar> > \<bar>fl (b2 - b1)\<bar> then fl (b2 - b1) else dy)
         in if dx = 0 \<and> dy = 0
            then
              (case timezero s of None \<Rightarrow> Inl (AttributeError, s) | Some tz \<Rightarrow>
              (case lasttime s of None \<Rightarrow> Inl (TypeError, s) | Some lt \<Rightarrow>
                 (let s = (if (case endtime s of None \<Rightarrow> True | Some e \<Rightarrow> e < fl (lt - tz))
                           then s\<lparr>endtime := Some (fl (lt - tz))\<rparr> else s)
                  in Inr (False, s\<lparr>points := (points s)(node := None)\<rparr>))))
            else
              (let dx = (if fl (a1 + dx) < 0 then fl (0 - a1) else dx);
                   dy = (if fl (b1 + dy) < 0 then fl (0 - b1) else dy)
               in Inr (True, setnodeposition s node (Some (fl (a1 + dx))) (Some (fl (b1 + dy))) z1))))))))))"

definition init_mobility :: "(nat \<times> int) list \<Rightarrow> (int \<Rightarrow> position) \<Rightarrow> mobility" where
  \<comment> \<open>\<^verbatim>\<open>WayPointMobility.__init__\<close>, in a session with the given interfaces and node positions\<close>
  "init_mobility netifs positions =
     \<lparr>state = STATE_STOPPED, queue = [], queue_copy = [], points = Map.empty,
      initial = Map.empty, lasttime = None, timezero = None, endtime = None,
      loop = False, refresh_ms = 50, nodemap = Map.empty,
      node_position = positions, wlan_netifs = netifs, effects = []\<rparr>"

definition example_waypoint :: WayPoint where
  "example_waypoint = \<lparr>time = 1, nodenum = 1, coords = (Some 50, Some 50, None), speed = Scalar 5\<rparr>"

definition example_running :: mobility where
  \<comment> \<open>a running scheduler: node 1 at the origin, on its way to \<open>example_waypoint\<close>\<close>
  "example_running =
     (init_mobility [(1, 1)] (\<lambda>n. (Some 0, Some 0, None)))
       \<lparr>state := STATE_RUNNING, points := [1 \<mapsto> example_waypoint],
        lasttime := Some 10, timezero := Some 0, endtime := Some 20\<rparr>"

definition d03 :: real where
  \<comment> \<open>the float \<^verbatim>\<open>0.3\<close>\<close>
  "d03 = 5404319552844595 / 2 ^ 54"

definition d09 :: real where
  \<comment> \<open>the float \<^verbatim>\<open>0.9\<close>\<close>
  "d09 = 8106479329266893 / 2 ^ 53"

definition d06u :: real where
  \<comment> \<open>the float \<^verbatim>\<open>0.6000000000000001\<close>, one unit in the last place above the float \<^verbatim>\<open>0.6\<close>\<close>
  "d06u = 5404319552844596 / 2 ^ 53"

definition d09u :: real where
  \<comment> \<open>the float \<^verbatim>\<open>0.9000000000000001\<close>, one unit in the last place above \<open>d09\<close>\<close>
  "d09u = 8106479329266894 / 2 ^ 53"

definition example_near_target :: mobility where
  \<comment> \<open>node 1 at \<open>(0.3, 0)\<close>, on its way to \<open>(0.9, 0)\<close> with the velocity \<open>(0.75, 0)\<close>\<close>
  "example_near_target =
     (init_mobility [(1, 1)] (\<lambda>n. (Some d03, Some 0, None)))
       \<lparr>state := STATE_RUNNING,
        points := [1 \<mapsto> \<lparr>time = 1, nodenum = 1, coords = (Some d09, Some 0, None),
                          speed = Velocity (3 / 4) 0\<rparr>],
        lasttime := Some 10, timezero := Some 0, endtime := Some 20\<rparr>"

definition example_negative_start :: mobility where
  \<comment> \<open>node 1 at \<open>(-10, 0)\<close>, on its way to \<open>(-5, 0)\<close> with the velocity \<open>(2, 0)\<close>\<close>
  "example_negative_start =
     (init_mobility [(1, 1)] (\<lambda>n. (Some (- 10), Some 0, None)))
       \<lparr>state := STATE_RUNNING,
        points := [1 \<mapsto> \<lparr>time = 1, nodenum = 1, coords = (Some (- 5), Some 0, None),
                          speed = Velocity 2 0\<rparr>],
        lasttime := Some 10, timezero := Some 0, endtime := Some 20\<rparr>"

definition example_instant_negative :: mobility where
  \<comment> \<open>node 1 at the origin, with an instantaneous move to \<open>(-5, 0)\<close> pending\<close>
  "example_instant_negative =
     example_running\<lparr>points := [1 \<mapsto> \<lparr>time = 1, nodenum = 1,
        coords = (Some (- 5), Some 0, None), speed = Scalar 0\<rparr>]\<rparr>"

type_synonym waypoint_call = "real \<times> int \<times> position \<times> speed"

definition waypoint_of :: "waypoint_call \<Rightarrow> WayPoint" where
  \<comment> \<open>the waypoint that a call \<^verbatim>\<open>addwaypoint(time, nodenum, x, y, z, speed)\<close> creates\<close>
  "waypoint_of c =
     (case c of (t, n, xyz, sp) \<Rightarrow> \<lparr>time = t, nodenum = n, coords = xyz, speed = sp\<rparr>)"

fun add_waypoints :: "mobility \<Rightarrow> waypoint_call list \<Rightarrow> mobility" where
  \<comment> \<open>a sequence of calls of \<open>addwaypoint\<close>\<close>
  "add_waypoints s [] = s"
| "add_waypoints s ((t, n, (x, y, z), sp) # rest) =
     add_waypoints (addwaypoint s t n x y z sp) rest"

definition example_calls :: "waypoint_call list" where
  "example_calls =
     [(2, 1, (Some 10, Some 10, None), Scalar 1),
      (1, 5, (Some 20, Some 20, None), Scalar 1),
      (1, 3, (Some 30, Some 30, None), Scalar 1)]"

section \<open>Ns2ScriptedMobility.readscriptfile\<close>

text \<open>
  More string operations: \<^verbatim>\<open>s.split()\<close> (runs of white space separate the fields,
  no field is empty), \<^verbatim>\<open>s.index(c)\<close> (\<open>ValueError\<close> when \<open>c\<close> does not occur),
  \<^verbatim>\<open>s.strip(c)\<close>, the slice \<^verbatim>\<open>s[i:j]\<close> and the subscript \<^verbatim>\<open>parts[i]\<close>
  (\<open>IndexError\<close> past the end). The built-in \<^verbatim>\<open>float\<close> is a parameter \<open>pyfloat\<close> of
  the parser: \<open>None\<close> stands for the \<open>ValueError\<close> of a string that is not a number.
\<close>

fun words_from :: "string \<Rightarrow> string \<Rightarrow> string list" where
  "words_from cur [] = (if cur = [] then [] else [rev cur])"
| "words_from cur (c # cs) =
     (if is_space c then (if cur = [] then words_from [] cs else rev cur # words_from [] cs)
      else words_from (c # cur) cs)"

definition split_ws :: "string \<Rightarrow> string list" where
  "split_ws s = words_from [] s"

fun index_of :: "char \<Rightarrow> string \<Rightarrow> nat option" where
  "index_of c [] = None"
| "index_of c (x # xs) = (if x = c then Some 0 else map_option Suc (index_of c xs))"

definition str_index :: "string \<Rightarrow> char \<Rightarrow> error + nat" where
  "str_index s c = (case index_of c s of None \<Rightarrow> Inl ValueError | Some i \<Rightarrow> Inr i)"

definition strip_char :: "char \<Rightarrow> string \<Rightarrow> string" where
  "strip_char c s = rev (dropWhile (\<lambda>x. x = c) (rev (dropWhile (\<lambda>x. x = c) s)))"

definition slice :: "string \<Rightarrow> nat \<Rightarrow> nat \<Rightarrow> string" where
  "slice s i j = take (j - i) (drop i s)"

definition subscript :: "'a list \<Rightarrow> nat \<Rightarrow> error + 'a" where
  "subscript xs i = (if i < length xs then Inr (xs ! i) else Inl IndexError)"

definition ebind :: "error + 'a \<Rightarrow> ('a \<Rightarrow> error + 'b) \<Rightarrow> error + 'b" where
  \<comment> \<open>evaluate, and go on unless an exception was raised\<close>
  "ebind m f = (case m of Inl e \<Rightarrow> Inl e | Inr v \<Rightarrow> f v)"

definition to_float :: "(string \<Rightarrow> real option) \<Rightarrow> string \<Rightarrow> error + real" where
  "to_float pyfloat s = (case pyfloat s of None \<Rightarrow> Inl ValueError | Some v \<Rightarrow> Inr v)"

definition node_of_field :: "string \<Rightarrow> error + string" where
  \<comment> \<open>\<^verbatim>\<open>field[1 + field.index('('):field.index(')')]\<close>\<close>
  "node_of_field field =
     ebind (str_index field CHR ''('') (\<lambda>i.
     ebind (str_index field CHR '')'') (\<lambda>j.
       Inr (slice field (1 + i) j)))"

text \<open>
  The local variables of the loop (\<open>ln_no\<close> is the line counter \<^verbatim>\<open>ln\<close>). \<open>skipped\<close> lists the numbers of the lines the
  handler of \<open>ValueError\<close> has logged as skipped.
\<close>

record parser =
  ln_no :: nat
  ix :: "real option"
  iy :: "real option"
  iz :: "real option"
  inodenum :: nodearg
  skipped :: "nat list"

type_synonym reading = "parser \<times> mobility"

definition flush_initial :: "reading \<Rightarrow> error + reading" where
  \<comment> \<open>\<^verbatim>\<open>if ix is not None and iy is not None: addinitial(map(inodenum), ix, iy, iz); ix = iy = iz = None\<close>\<close>
  "flush_initial st =
     (case st of (p, s) \<Rightarrow>
        if ix p \<noteq> None \<and> iy p \<noteq> None
        then ebind (map_nodenum (nodemap s) (inodenum p)) (\<lambda>n.
               Inr (p\<lparr>ix := None, iy := None, iz := None\<rparr>, addinitial s n (ix p) (iy p) (iz p)))
        else Inr (p, s))"

definition parse_setdest ::
  "(string \<Rightarrow> real option) \<Rightarrow> (int \<rightharpoonup> int) \<Rightarrow> string
     \<Rightarrow> error + (real \<times> int \<times> real \<times> real \<times> real)" where
  \<comment> \<open>the fields of a line \<^verbatim>\<open>$ns_ at 1.00 "$node_(6) setdest 500.0 178.0 25.0"\<close>, in the order the code reads them\<close>
  "parse_setdest pyfloat nm line =
     (let parts = split_ws line
      in ebind (subscript parts 2) (\<lambda>f2.
         ebind (to_float pyfloat f2) (\<lambda>t.
         ebind (subscript parts 3) (\<lambda>f3.
         ebind (node_of_field f3) (\<lambda>node.
         ebind (subscript parts 5) (\<lambda>f5.
         ebind (to_float pyfloat f5) (\<lambda>x.
         ebind (subscript parts 6) (\<lambda>f6.
         ebind (to_float pyfloat f6) (\<lambda>y.
         ebind (subscript parts 7) (\<lambda>f7.
         ebind (to_float pyfloat (strip_char CHR 0x22 f7)) (\<lambda>sp.
         ebind (map_nodenum nm (NodeStr node)) (\<lambda>n.
           Inr (t, n, x, y, sp)))))))))))))"

definition setdest_line ::
  "(string \<Rightarrow> real option) \<Rightarrow> reading \<Rightarrow> string \<Rightarrow> (error \<times> reading) + reading" where
  "setdest_line pyfloat st line =
     (case flush_initial st of
        Inl e \<Rightarrow> Inl (e, st)
      | Inr (p, s) \<Rightarrow>
          (case parse_setdest pyfloat (nodemap s) line of
             Inl e \<Rightarrow> Inl (e, (p, s))
           | Inr (t, n, x, y, sp) \<Rightarrow>
               Inr (p, addwaypoint s t n (Some x) (Some y) None (Scalar sp))))"

definition node_line ::
  "(string \<Rightarrow> real option) \<Rightarrow> reading \<Rightarrow> string \<Rightarrow> (error \<times> reading) + reading" where
  \<comment> \<open>a line \<^verbatim>\<open>$node_(6) set X_ 780.0\<close>\<close>
  "node_line pyfloat st line =
     (let parts = split_ws line
      in case ebind (subscript parts 0) node_of_field of
           Inl e \<Rightarrow> Inl (e, st)
         | Inr node \<Rightarrow>
        (case subscript parts 2 of
           Inl e \<Rightarrow> Inl (e, st)
         | Inr axis \<Rightarrow>
             if axis = ''X_'' then
               (case flush_initial st of
                  Inl e \<Rightarrow> Inl (e, st)
                | Inr (p, s) \<Rightarrow>
                    (case ebind (subscript parts 3) (to_float pyfloat) of
                       Inl e \<Rightarrow> Inl (e, (p, s))
                     | Inr v \<Rightarrow> Inr (p\<lparr>ix := Some v, inodenum := NodeStr node\<rparr>, s)))
             else if axis = ''Y_'' then
               (case ebind (subscript parts 3) (to_float pyfloat) of
                  Inl e \<Rightarrow> Inl (e, st)
                | Inr v \<Rightarrow> Inr ((fst st)\<lparr>iy := Some v, inodenum := NodeStr node\<rparr>, snd st))
             else if axis = ''Z_'' then
               (case ebind (subscript parts 3) (to_float pyfloat) of
                  Inl e \<Rightarrow> Inl (e, st)
                | Inr v \<Rightarrow>
                    (let p = (fst st)\<lparr>iz := Some v\<rparr>;
                         s = snd st
                     in case map_nodenum (nodemap s) (NodeStr node) of
                          Inl e \<Rightarrow> Inl (e, (p, s))
                        | Inr n \<Rightarrow>
                            Inr (p\<lparr>ix := None, iy := None, iz := None,
                                   inodenum := NodeStr node\<rparr>,
                                 addinitial s n (ix p) (iy p) (iz p))))
             else Inr ((fst st)\<lparr>inodenum := NodeStr node\<rparr>, snd st)))"

definition script_line ::
  "(string \<Rightarrow> real option) \<Rightarrow> reading \<Rightarrow> string \<Rightarrow> (error \<times> reading) + reading" where
  \<comment> \<open>the body of the \<^verbatim>\<open>try\<close> statement\<close>
  "script_line pyfloat st line =
     (if take 8 line = ''$ns_ at '' then setdest_line pyfloat st line
      else if take 7 line = ''$node_('' then node_line pyfloat st line
      else Inl (ValueError, st))"

fun script_lines ::
  "(string \<Rightarrow> real option) \<Rightarrow> reading \<Rightarrow> string list \<Rightarrow> (error \<times> reading) + reading" where
  "script_lines pyfloat st [] = Inr st"
| "script_lines pyfloat st (line # rest) =
     (let st = ((fst st)\<lparr>ln_no := ln_no (fst st) + 1\<rparr>, snd st)
      in if take 2 line \<noteq> ''$n'' then script_lines pyfloat st rest
         else (case script_line pyfloat st line of
                 Inr st' \<Rightarrow> script_lines pyfloat st' rest
               | Inl (e, st') \<Rightarrow>
                   if e = ValueError
                   then script_lines pyfloat
                          ((fst st')\<lparr>skipped := skipped (fst st') @ [ln_no (fst st')]\<rparr>, snd st') rest
                   else Inl (e, st')))"

definition readscriptfile ::
  "(string \<Rightarrow> real option) \<Rightarrow> mobility \<Rightarrow> string list option \<Rightarrow> (error \<times> mobility) + mobility" where
  \<comment> \<open>\<open>file\<close> is the list of the lines of the file, or \<open>None\<close> when \<^verbatim>\<open>open\<close> raises \<open>IOError\<close>\<close>
  "readscriptfile pyfloat s file =
     (case file of
        None \<Rightarrow> Inr s
      | Some lines \<Rightarrow>
          (case script_lines pyfloat
                  (\<lparr>ln_no = 0, ix = None, iy = None, iz = None, inodenum = NodeNone, skipped = []\<rparr>, s)
                  lines of
             Inl (e, (p, s')) \<Rightarrow> Inl (e, s')
           | Inr (p, s') \<Rightarrow>
               (case flush_initial (p, s') of
                  Inl e \<Rightarrow> Inl (e, s')
                | Inr (p', s'') \<Rightarrow> Inr s'')))"

definition short_setdest_line :: string where
  \<comment> \<open>a scheduled-movement line with too few fields\<close>
  "short_setdest_line = ''$ns_ at '' @ [CHR 0x0A]"

definition good_setdest_line :: string where
  "good_setdest_line =
     ''$ns_ at 1.0 '' @ [CHR 0x22] @ ''$node_(0) setdest 50 50 5.0'' @ [CHR 0x22, CHR 0x0A]"

definition example_float :: "string \<Rightarrow> real option" where
  \<comment> \<open>\<^verbatim>\<open>float\<close> on the strings of the examples\<close>
  "example_float s =
     (if s = ''1.0'' then Some 1 else if s = ''50'' then Some 50
      else if s = ''5.0'' then Some 5 else None)"

section \<open>BasicRangeModel\<close>

type_synonym netif = nat

datatype link_message = LinkAdd netif netif | LinkDelete netif netif
  \<comment> \<open>the message of \<^verbatim>\<open>sendlinkmsg\<close>: flag \<^verbatim>\<open>ADD\<close> or \<^verbatim>\<open>DELETE\<close> and the two interfaces\<close>

text \<open>
  Modelled from the spec: the link-state table of the owning network segment. The
  methods \<^verbatim>\<open>wlan.linked\<close>, \<^verbatim>\<open>wlan.link\<close> and \<^verbatim>\<open>wlan.unlink\<close> that \<open>calclink\<close> calls are
  defined outside this module. The table holds one boolean per endpoint pair under the
  key (min, max); an entry is created at the first evaluation of a pair, with the
  segment's initial link state \<open>policy\<close>, changed afterwards and never deleted. The
  lookup fails with \<open>KeyError\<close>, the error \<open>calclink\<close> catches, for an endpoint that
  is not attached to the segment.
\<close>

record wlan =
  attached :: "netif set"
  policy :: bool
  linked_tbl :: "netif \<times> netif \<rightharpoonup> bool"

definition wlan_linked :: "wlan \<Rightarrow> netif \<Rightarrow> netif \<Rightarrow> error + (bool \<times> wlan)" where
  "wlan_linked w a b =
     (if a \<in> attached w \<and> b \<in> attached w then
        (case linked_tbl w (a, b) of
           Some v \<Rightarrow> Inr (v, w)
         | None \<Rightarrow> Inr (policy w, w\<lparr>linked_tbl := (linked_tbl w)((a, b) \<mapsto> policy w)\<rparr>))
      else Inl KeyError)"

definition wlan_link :: "wlan \<Rightarrow> netif \<Rightarrow> netif \<Rightarrow> wlan" where
  "wlan_link w a b = w\<lparr>linked_tbl := (linked_tbl w)((a, b) \<mapsto> True)\<rparr>"

definition wlan_unlink :: "wlan \<Rightarrow> netif \<Rightarrow> netif \<Rightarrow> wlan" where
  "wlan_unlink w a b = w\<lparr>linked_tbl := (linked_tbl w)((a, b) \<mapsto> False)\<rparr>"

definition link_state :: "wlan \<Rightarrow> netif \<Rightarrow> netif \<Rightarrow> bool" where
  \<comment> \<open>whether a pair is currently linked: its entry, or the initial state while it has none\<close>
  "link_state w a b = (case linked_tbl w (a, b) of Some v \<Rightarrow> v | None \<Rightarrow> policy w)"

text \<open>
  The state of a \<^verbatim>\<open>BasicRangeModel\<close>: the dictionary \<^verbatim>\<open>_netifs\<close> as an association list
  in the order of iteration (a new key goes to the end, an assignment to a known key
  keeps its place), the range, the segment, the position of each interface's node
  (\<^verbatim>\<open>netif.node.getposition()\<close>), and the link messages broadcast so far. The field
  \<open>evaluated\<close> is an observer added to the model: the calls of \<open>calclink\<close>, in order.
\<close>

record range_model =
  netifs :: "(netif \<times> position) list"
  range_limit :: real
  wlan :: wlan
  getposition :: "netif \<Rightarrow> position"
  sent :: "link_message list"
  evaluated :: "(netif \<times> netif) list"

definition sendlinkmsg :: "range_model \<Rightarrow> netif \<Rightarrow> netif \<Rightarrow> bool \<Rightarrow> range_model" where
  "sendlinkmsg s a b unlink =
     s\<lparr>sent := sent s @ [if unlink then LinkDelete a b else LinkAdd a b]\<rparr>"

definition calclink :: "range_model \<Rightarrow> netif \<Rightarrow> netif \<Rightarrow> (error \<times> range_model) + range_model" where
  "calclink s0 netif netif2 =
     (let s = s0\<lparr>evaluated := evaluated s0 @ [(netif, netif2)]\<rparr>
      in if netif = netif2 then Inr s
         else
     (case map_of (netifs s) netif of None \<Rightarrow> Inr s | Some (x, y, z) \<Rightarrow>
     (case map_of (netifs s) netif2 of None \<Rightarrow> Inr s | Some (x2, y2, z2) \<Rightarrow>
        if x2 = None \<or> y2 = None then Inr s
        else
     (case calcdistance (x, y, z) (x2, y2, z2) of Inl e \<Rightarrow> Inl (e, s) | Inr d \<Rightarrow>
        (let a = min netif netif2;
             b = max netif netif2
         in case wlan_linked (wlan s) a b of
              Inl e \<Rightarrow> if e = KeyError then Inr s else Inl (e, s)
            | Inr (linked, w) \<Rightarrow>
                (let s = s\<lparr>wlan := w\<rparr>
                 in if d > range_limit s
                    then (if linked
                          then Inr (sendlinkmsg (s\<lparr>wlan := wlan_unlink (wlan s) a b\<rparr>) a b True)
                          else Inr s)
                    else (if \<not> linked
                          then Inr (sendlinkmsg (s\<lparr>wlan := wlan_link (wlan s) a b\<rparr>) a b False)
                          else Inr s)))))))"

fun calclink_all ::
  "range_model \<Rightarrow> netif \<Rightarrow> netif list \<Rightarrow> (error \<times> range_model) + range_model" where
  "calclink_all s netif [] = Inr s"
| "calclink_all s netif (netif2 # rest) =
     (case calclink s netif netif2 of
        Inl e \<Rightarrow> Inl e
      | Inr s' \<Rightarrow> calclink_all s' netif rest)"

definition set_position ::
  "range_model \<Rightarrow> netif \<Rightarrow> real option \<Rightarrow> real option \<Rightarrow> real option
     \<Rightarrow> (error \<times> range_model) + range_model" where
  "set_position s0 netif x y z =
     (let s = s0\<lparr>netifs := AList.update netif (x, y, z) (netifs s0)\<rparr>
      in if x = None \<or> y = None then Inr s
         else calclink_all s netif (map fst (netifs s)))"

text \<open>
  \<^verbatim>\<open>update(moved, moved_netifs)\<close> never reads \<^verbatim>\<open>moved\<close>. It pops the caller's list
  \<^verbatim>\<open>moved_netifs\<close> from the end; the model returns the list together with the state.
  \<open>update_inner\<close> is the loop over the keys of \<^verbatim>\<open>_netifs\<close>.
\<close>

fun update_inner ::
  "range_model \<Rightarrow> netif \<Rightarrow> netif list \<Rightarrow> netif list \<Rightarrow> (error \<times> range_model) + range_model" where
  "update_inner s netif moved_netifs [] = Inr s"
| "update_inner s netif moved_netifs (netif2 # rest) =
     (if netif2 \<in> set moved_netifs then update_inner s netif moved_netifs rest
      else (case calclink s netif netif2 of
              Inl e \<Rightarrow> Inl e
            | Inr s' \<Rightarrow> update_inner s' netif moved_netifs rest))"

function update ::
  "range_model \<Rightarrow> netif list \<Rightarrow> (error \<times> range_model) + (range_model \<times> netif list)" where
  "update s0 moved_netifs0 =
     (if moved_netifs0 = [] then Inr (s0, moved_netifs0)
      else
        (let netif = last moved_netifs0;
             moved_netifs = butlast moved_netifs0;
             s = (if netif \<in> fst ` set (netifs s0)
                  then s0\<lparr>netifs := AList.update netif (getposition s0 netif) (netifs s0)\<rparr>
                  else s0)
         in case update_inner s netif moved_netifs (map fst (netifs s)) of
              Inl e \<Rightarrow> Inl e
            | Inr s' \<Rightarrow> update s' moved_netifs))"
  by pat_completeness auto
termination
  by (relation "measure (\<lambda>(s, moved_netifs). length moved_netifs)") auto

declare update.simps [simp del]

definition init_range_model ::
  "real \<Rightarrow> wlan \<Rightarrow> (netif \<Rightarrow> position) \<Rightarrow> range_model" where
  \<comment> \<open>\<^verbatim>\<open>BasicRangeModel.__init__\<close>: no interface placed yet\<close>
  "init_range_model r w positions =
     \<lparr>netifs = [], range_limit = r, wlan = w, getposition = positions, sent = [], evaluated = []\<rparr>"

fun set_positions ::
  "range_model \<Rightarrow> (netif \<times> position) list \<Rightarrow> (error \<times> range_model) + range_model" where
  \<comment> \<open>a sequence of calls of \<open>set_position\<close>, stopping at the first that raises\<close>
  "set_positions s [] = Inr s"
| "set_positions s ((netif, (x, y, z)) # rest) =
     (case set_position s netif x y z of
        Inl e \<Rightarrow> Inl e
      | Inr s' \<Rightarrow> set_positions s' rest)"

definition scenario_wlan :: wlan where
  \<comment> \<open>a segment with the two endpoints 1 and 2, no pair linked\<close>
  "scenario_wlan = \<lparr>attached = {1, 2}, policy = False, linked_tbl = Map.empty\<rparr>"

definition scenario_model :: range_model where
  \<comment> \<open>Scenario A: range 275, nothing placed\<close>
  "scenario_model = init_range_model 275 scenario_wlan (\<lambda>n. (None, None, None))"

definition scenario_placed :: range_model where
  \<comment> \<open>P1 at (0, 0) and P2 at (200, 0), the pair not yet evaluated\<close>
  "scenario_placed =
     scenario_model\<lparr>netifs := [(1, (Some 0, Some 0, None)), (2, (Some 200, Some 0, None))]\<rparr>"

definition placed :: "position \<Rightarrow> bool" where
  \<comment> \<open>an endpoint is placed when its x and y are present\<close>
  "placed p = (case p of (x, y, z) \<Rightarrow> x \<noteq> None \<and> y \<noteq> None)"

definition pass_evaluations :: "range_model \<Rightarrow> range_model \<Rightarrow> (netif \<times> netif) list" where
  \<comment> \<open>the evaluations made between two states\<close>
  "pass_evaluations s s' = drop (length (evaluated s)) (evaluated s')"

definition pass_result ::
  "(error \<times> range_model) + (range_model \<times> netif list) \<Rightarrow> range_model" where
  \<comment> \<open>the state that a batch update leaves behind, whether it returned or raised\<close>
  "pass_result r = (case r of Inl (e, s) \<Rightarrow> s | Inr (s, m) \<Rightarrow> s)"

fun popped_pairs :: "netif list \<Rightarrow> netif list \<Rightarrow> (netif \<times> netif) list" where
  \<comment> \<open>the pairs of a pass, the moved endpoints given in the order in which they are popped\<close>
  "popped_pairs [] ks = []"
| "popped_pairs (x # remaining) ks =
     map (Pair x) (filter (\<lambda>k. k \<notin> set remaining) ks) @ popped_pairs remaining ks"

definition example_three :: range_model where
  \<comment> \<open>three endpoints placed at the origin; their nodes have moved to 100, 200 and 300 on the x axis\<close>
  "example_three =
     (init_range_model 275 \<lparr>attached = {1, 2, 3}, policy = False, linked_tbl = Map.empty\<rparr>
        (\<lambda>n. (Some (100 * real n), Some 0, None)))
       \<lparr>netifs := [(1, (Some 0, Some 0, None)), (2, (Some 0, Some 0, None)),
                   (3, (Some 0, Some 0, None))]\<rparr>"

definition example_unplaced :: range_model where
  \<comment> \<open>the same endpoints, the nodes without a position\<close>
  "example_unplaced = example_three\<lparr>getposition := (\<lambda>n. (None, None, None))\<rparr>"

section \<open>Distance: theorems\<close>

lemma hypot_hypot: "hypot (hypot a b) c = sqrt (a\<^sup>2 + b\<^sup>2 + c\<^sup>2)"
  by (simp add: hypot_def)

lemma hypot_zero_right: "hypot a 0 = \<bar>a\<bar>"
  by (simp add: hypot_def)

lemma hypot_commute_sign: "hypot (- a) b = hypot a b" "hypot a (- b) = hypot a b"
  by (simp_all add: hypot_def)

lemma py_sub_swap:
  "py_sub u v = (case py_sub v u of Inl e \<Rightarrow> Inl e | Inr d \<Rightarrow> Inr (- d))"
  by (cases u; cases v) simp_all

lemma calcdistance_placed:
  "calcdistance (Some x1, Some y1, z1) (Some x2, Some y2, z2) =
     Inr (sqrt ((x1 - x2)\<^sup>2 + (y1 - y2)\<^sup>2 + (zterm z1 z2)\<^sup>2))"
  by (simp add: calcdistance_def zterm_def hypot_hypot split: option.splits)

text \<open>
  Claim C2, as amended. With x and y present on both sides the distance is
  \<open>sqrt ((x1 - x2)\<^sup>2 + (y1 - y2)\<^sup>2 + c\<^sup>2)\<close>, where \<open>c\<close> is \<open>z1 - z2\<close> when both z
  coordinates are present and \<open>0\<close> as soon as one of them is absent: an absent z on
  either side removes the whole z term, it does not stand for the value 0.
\<close>

theorem calcdistance_formula:
  "calcdistance (Some x1, Some y1, z1) (Some x2, Some y2, z2) =
     Inr (sqrt ((x1 - x2)\<^sup>2 + (y1 - y2)\<^sup>2 + (zterm z1 z2)\<^sup>2))"
  by (rule calcdistance_placed)

theorem calcdistance_formula_witness:
  "calcdistance (Some 0, Some 0, Some 7) (Some 3, Some 4, None) = Inr 5
   \<and> calcdistance (Some 0, Some 0, Some 12) (Some 3, Some 4, Some 0) = Inr 13"
proof -
  have a: "sqrt ((0 - 3)\<^sup>2 + (0 - 4)\<^sup>2 + (zterm (Some 7) None)\<^sup>2) = 5"
    using real_sqrt_abs [of 5] by (simp add: zterm_def)
  have b: "sqrt ((0 - 3)\<^sup>2 + (0 - 4)\<^sup>2 + (zterm (Some 12) (Some 0))\<^sup>2) = 13"
    using real_sqrt_abs [of 13] by (simp add: zterm_def)
  show ?thesis
    using calcdistance_formula [of 0 0 "Some 7" 3 4 None]
      calcdistance_formula [of 0 0 "Some 12" 3 4 "Some 0"] a b
    by simp
qed

text \<open>
  Claim C2 as stated fails: with the z coordinate 3 on one side and absent on the
  other, the specification's formula gives the distance 3, the code gives 0.
\<close>

theorem calcdistance_absent_z_counterexample:
  "calcdistance (Some 0, Some 0, Some 3) (Some 0, Some 0, None) = Inr 0
   \<and> spec_distance (0, 0, Some 3) (0, 0, None) = 3"
proof -
  have "sqrt ((3::real)\<^sup>2) = 3" using real_sqrt_abs [of "3::real"] by simp
  then show ?thesis
    by (simp add: calcdistance_def hypot_def spec_distance_def zero_if_absent_def)
qed

text \<open>
  Claim C9. The distance function is symmetric, for all positions: the two orders give
  the same distance, and when an x or y coordinate is absent they raise the same
  \<open>TypeError\<close>.
\<close>

theorem calcdistance_symmetric: "calcdistance A B = calcdistance B A"
proof -
  obtain x1 y1 z1 where A: "A = (x1, y1, z1)" by (cases A) auto
  obtain x2 y2 z2 where B: "B = (x2, y2, z2)" by (cases B) auto
  have z: "hypot h (zterm z1 z2) = hypot h (zterm z2 z1)" for h
    by (cases z1; cases z2) (simp_all add: zterm_def hypot_def power2_commute)
  have xy: "hypot (a - b) (c - d) = hypot (b - a) (d - c)" for a b c d :: real
    by (simp add: hypot_def power2_commute)
  show ?thesis
    unfolding A B
    by (cases x1; cases x2; cases y1; cases y2)
       (simp_all add: calcdistance_def xy z [unfolded zterm_def])
qed

theorem calcdistance_symmetric_witness:
  "calcdistance (Some 1, Some 2, None) (Some 4, Some 6, Some 9) = Inr 5
   \<and> calcdistance (Some 4, Some 6, Some 9) (Some 1, Some 2, None) = Inr 5"
proof -
  have "sqrt ((5::real)\<^sup>2) = 5" using real_sqrt_abs [of "5::real"] by simp
  then have "calcdistance (Some 4, Some 6, Some 9) (Some 1, Some 2, None) = Inr 5"
    by (simp add: calcdistance_def hypot_def)
  then show ?thesis
    using calcdistance_symmetric [of "(Some 1, Some 2, None)" "(Some 4, Some 6, Some 9)"]
    by simp
qed

section \<open>Node map: theorems\<close>

lemma parsemap_loop_kept:
  "parsemap_loop nm pairs =
     nm ++ map_of (rev (map the (takeWhile (\<lambda>r. r \<noteq> None) (map parse_entry pairs))))"
proof (induction pairs arbitrary: nm)
  case Nil
  show ?case by simp
next
  case (Cons pair rest)
  show ?case
  proof (cases "parse_entry pair")
    case None
    then have "parsemap_loop nm (pair # rest) = nm"
      by (auto simp: parse_entry_def Let_def split: list.splits sum.splits)
    with None show ?thesis by simp
  next
    case (Some sd)
    obtain src dst where sd: "sd = (src, dst)" by (cases sd)
    from Some sd obtain a b where ab: "split_on CHR '':'' pair = [a, b]"
      "pyint a = Inr src" "pyint b = Inr dst"
      by (auto simp: parse_entry_def split: list.splits sum.splits)
    then have "parsemap_loop nm (pair # rest) = parsemap_loop (nm(src \<mapsto> dst)) rest"
      by simp
    also have "\<dots> = nm(src \<mapsto> dst) ++
        map_of (rev (map the (takeWhile (\<lambda>r. r \<noteq> None) (map parse_entry rest))))"
      by (rule Cons.IH)
    finally show ?thesis
      using Some sd by (simp add: map_add_assoc)
  qed
qed

lemma parsemap_kept: "parsemap mapstr = map_of (rev (kept_entries mapstr))"
  by (simp add: parsemap_def kept_entries_def parsemap_loop_kept)

lemma kept_entries_well_formed:
  assumes "well_formed_map mapstr"
  shows "kept_entries mapstr = all_entries mapstr"
proof -
  let ?rs = "map parse_entry (split_on CHR '','' mapstr)"
  have "\<forall>r \<in> set ?rs. r \<noteq> None"
    using assms by (auto simp: well_formed_map_def list_all_iff)
  then have "takeWhile (\<lambda>r. r \<noteq> None) ?rs = ?rs"
    by (simp only: takeWhile_eq_all_conv)
  then show ?thesis by (simp only: kept_entries_def all_entries_def)
qed

text \<open>
  Claim C5, as amended. Parsing a node-map string keeps exactly the entries in front of
  the first malformed entry (a later entry for a source overrides an earlier one) and
  drops that entry and every entry after it. A node id that is a source among the kept
  entries maps to its destination, every other id passes through unchanged. When the
  string is well formed every entry is kept.
\<close>

theorem parsemap_keeps_prefix:
  "parsemap mapstr = map_of (rev (kept_entries mapstr))
   \<and> map_nodenum (parsemap mapstr) (NodeInt n)
       = Inr (case map_of (rev (kept_entries mapstr)) n of None \<Rightarrow> n | Some d \<Rightarrow> d)
   \<and> (well_formed_map mapstr \<longrightarrow> kept_entries mapstr = all_entries mapstr)"
  by (auto simp: parsemap_kept map_nodenum_def int_of_nodearg_def kept_entries_well_formed
           split: option.splits)

theorem parsemap_keeps_prefix_witness:
  "well_formed_map ''0:5, 1:2''
   \<and> kept_entries ''0:5, 1:2'' = [(0, 5), (1, 2)]
   \<and> map_nodenum (parsemap ''0:5, 1:2'') (NodeInt 1) = Inr 2
   \<and> map_nodenum (parsemap ''0:5, 1:2'') (NodeInt 7) = Inr 7"
proof -
  note t1 = parsemap_keeps_prefix [of "''0:5, 1:2''" 1]
  note t7 = parsemap_keeps_prefix [of "''0:5, 1:2''" 7]
  have wf: "well_formed_map ''0:5, 1:2''" by code_simp
  have all: "all_entries ''0:5, 1:2'' = [(0, 5), (1, 2)]" by code_simp
  from t1 wf have "kept_entries ''0:5, 1:2'' = all_entries ''0:5, 1:2''" by blast
  with all have kept: "kept_entries ''0:5, 1:2'' = [(0, 5), (1, 2)]" by simp
  have m1: "map_nodenum (parsemap ''0:5, 1:2'') (NodeInt 1) = Inr 2"
    by (simp add: t1 [THEN conjunct2, THEN conjunct1] kept)
  have m7: "map_nodenum (parsemap ''0:5, 1:2'') (NodeInt 7) = Inr 7"
    by (simp add: t7 [THEN conjunct2, THEN conjunct1] kept)
  from wf kept m1 m7 show ?thesis by blast
qed

text \<open>
  Claim C5 as stated fails for a malformed string whose first entry is well formed: the
  string \<open>''0:5,bad,1:2''\<close> is not empty after trimming and has a malformed entry, yet
  the resulting mapping holds \<open>0 \<mapsto> 5\<close>, so node 0 does not pass through unchanged.
\<close>

theorem parsemap_malformed_counterexample:
  "strip ''0:5,bad,1:2'' \<noteq> []
   \<and> parse_entry ''bad'' = None
   \<and> parsemap ''0:5,bad,1:2'' 0 = Some 5
   \<and> map_nodenum (parsemap ''0:5,bad,1:2'') (NodeInt 0) = Inr 5"
  by code_simp

section \<open>Stopping and pausing: theorems\<close>

lemma setnodeposition_frame [simp]:
  "state (setnodeposition s n x y z) = state s"
  "queue (setnodeposition s n x y z) = queue s"
  "queue_copy (setnodeposition s n x y z) = queue_copy s"
  "points (setnodeposition s n x y z) = points s"
  "initial (setnodeposition s n x y z) = initial s"
  "timezero (setnodeposition s n x y z) = timezero s"
  "lasttime (setnodeposition s n x y z) = lasttime s"
  "endtime (setnodeposition s n x y z) = endtime s"
  by (simp_all add: setnodeposition_def)

lemma movenodesinitial_loop_frame:
  "movenodesinitial_loop s ns m mn = (s', m', mn') \<Longrightarrow>
     state s' = state s \<and> queue s' = queue s \<and> queue_copy s' = queue_copy s
     \<and> points s' = points s \<and> timezero s' = timezero s \<and> lasttime s' = lasttime s
     \<and> endtime s' = endtime s"
proof (induction s ns m mn rule: movenodesinitial_loop.induct)
  case (1 s moved moved_netifs)
  then show ?case by simp
next
  case (2 s netif node rest moved moved_netifs)
  show ?case
  proof (cases "initial s node")
    case None
    with 2 show ?thesis by simp
  next
    case (Some wp)
    obtain x y z where c: "coords wp = (x, y, z)" by (cases "coords wp")
    from 2(2)[OF Some c [symmetric] refl] 2(3) Some c show ?thesis by simp
  qed
qed

lemma movenodesinitial_frame:
  "state (movenodesinitial s) = state s \<and> queue (movenodesinitial s) = queue s
   \<and> queue_copy (movenodesinitial s) = queue_copy s \<and> points (movenodesinitial s) = points s
   \<and> timezero (movenodesinitial s) = timezero s \<and> lasttime (movenodesinitial s) = lasttime s
   \<and> endtime (movenodesinitial s) = endtime s"
proof -
  obtain s' m mn where l: "movenodesinitial_loop s (wlan_netifs s) [] [] = (s', m, mn)"
    by (cases "movenodesinitial_loop s (wlan_netifs s) [] []") auto
  from movenodesinitial_loop_frame [OF l] l show ?thesis
    by (simp add: movenodesinitial_def)
qed

lemma outcome_sendevent:
  "state (outcome (sendevent s)) = state s \<and> queue (outcome (sendevent s)) = queue s
   \<and> queue_copy (outcome (sendevent s)) = queue_copy s
   \<and> points (outcome (sendevent s)) = points s"
  by (simp add: sendevent_def outcome_def split: option.splits)

lemma stop_returns:
  "endtime s = Some e \<Longrightarrow> \<exists>s'. stop s move_initial = Inr s'"
  using movenodesinitial_frame [of "s\<lparr>state := STATE_STOPPED, queue := queue_copy s,
      timezero := Some 0, lasttime := Some 0\<rparr>"]
  by (simp add: stop_def loopwaypoints_def sendevent_def Let_def)

text \<open>
  Claim C3, as amended. From every scheduler state, whether or not the active-target
  table is empty, \<open>stop\<close> leaves the scheduler Stopped with the pending queue equal to the
  initial snapshot \<open>queue_copy\<close> and with the active-target table exactly as it was:
  stopping does not discard the active targets. \<open>pause\<close> leaves the scheduler Paused
  with both the pending queue and the active-target table exactly as they were.
\<close>

theorem stop_keeps_points:
  "state (outcome (stop s move_initial)) = STATE_STOPPED
   \<and> queue (outcome (stop s move_initial)) = queue_copy s
   \<and> queue_copy (outcome (stop s move_initial)) = queue_copy s
   \<and> points (outcome (stop s move_initial)) = points s
   \<and> state (pause s now) = STATE_PAUSED
   \<and> queue (pause s now) = queue s
   \<and> points (pause s now) = points s"
proof -
  let ?s1 = "s\<lparr>state := STATE_STOPPED, queue := queue_copy s,
      timezero := Some 0, lasttime := Some 0\<rparr>"
  let ?s2 = "if move_initial then movenodesinitial ?s1 else ?s1"
  have st: "stop s move_initial = sendevent ?s2"
    by (simp add: stop_def loopwaypoints_def Let_def)
  have "state ?s2 = STATE_STOPPED \<and> queue ?s2 = queue_copy s
    \<and> queue_copy ?s2 = queue_copy s \<and> points ?s2 = points s"
    using movenodesinitial_frame [of ?s1] by simp
  then show ?thesis
    using outcome_sendevent [of ?s2] by (simp add: st pause_def)
qed

theorem stop_keeps_points_witness:
  "state (outcome (stop example_running True)) = STATE_STOPPED
   \<and> queue (outcome (stop example_running True)) = []
   \<and> points (outcome (stop example_running True)) 1 = Some example_waypoint
   \<and> points (pause example_running 11) 1 = Some example_waypoint"
  using stop_keeps_points [of example_running True 11]
  by (simp add: example_running_def init_mobility_def)

text \<open>
  Claim C3 as stated fails: in \<open>example_running\<close> the active-target table holds a target
  for node 1; \<open>stop\<close> returns, the scheduler is Stopped, and the table still holds that
  target.
\<close>

theorem stop_clears_points_counterexample:
  "points example_running 1 = Some example_waypoint
   \<and> (case stop example_running True of
         Inl err \<Rightarrow> False
       | Inr s' \<Rightarrow> state s' = STATE_STOPPED \<and> points s' 1 = Some example_waypoint)"
  by (simp add: example_running_def init_mobility_def stop_def loopwaypoints_def
      movenodesinitial_def sendevent_def Let_def)

section \<open>Moving a node: theorems\<close>

lemma round_double_zero [simp]: "round_double 0 = 0"
  by (simp add: round_double_def)

lemma two_powr_minus: "(2::real) powr (- real m) = 1 / 2 ^ m"
  by (simp add: powr_minus_divide powr_realpow)

lemma round_double_below_one:
  assumes lo: "1 / 2 ^ Suc n \<le> \<bar>x\<bar>" and hi: "\<bar>x\<bar> < 1 / 2 ^ n"
  shows "round_double x = of_int (round_half_even (x * 2 ^ (n + 53))) / 2 ^ (n + 53)"
proof -
  have "(0::real) < 1 / 2 ^ Suc n" by simp
  with lo have pos: "0 < \<bar>x\<bar>" by linarith
  have a: "(2::real) powr (of_int (- int (Suc n))) = 1 / 2 ^ Suc n"
    using two_powr_minus [of "Suc n"] by (simp only: of_int_minus of_int_of_nat_eq)
  have "of_int (- int (Suc n) + 1) = - real n" by simp
  then have b: "(2::real) powr (of_int (- int (Suc n) + 1)) = 1 / 2 ^ n"
    using two_powr_minus [of n] by (simp only:)
  have bounds: "2 powr (of_int (- int (Suc n))) \<le> \<bar>x\<bar>
      \<and> \<bar>x\<bar> < 2 powr (of_int (- int (Suc n) + 1))"
    unfolding a b using lo hi by simp
  have "(1::real) < 2" by simp
  from floor_log_eq_powr_iff [OF pos this, of "- int (Suc n)"] bounds
  have "\<lfloor>log 2 \<bar>x\<bar>\<rfloor> = - int (Suc n)" by blast
  moreover have "(2::real) powr (of_int (- int (Suc n) - 52)) = 1 / 2 ^ (n + 53)"
  proof -
    have "of_int (- int (Suc n) - 52) = - real (n + 53)" by simp
    then show ?thesis using two_powr_minus [of "n + 53"] by (simp only:)
  qed
  ultimately show ?thesis using pos by (simp add: round_double_def Let_def)
qed

lemma round_double_from_one:
  assumes lo: "2 ^ n \<le> \<bar>x\<bar>" and hi: "\<bar>x\<bar> < 2 ^ Suc n" and n: "n \<le> 52"
  shows "round_double x = of_int (round_half_even (x * 2 ^ (52 - n))) / 2 ^ (52 - n)"
proof -
  have "(0::real) < 2 ^ n" by simp
  with lo have pos: "0 < \<bar>x\<bar>" by linarith
  have a: "(2::real) powr (of_int (int n)) = 2 ^ n"
    by (simp add: powr_realpow)
  have "of_int (int n + 1) = real (Suc n)" by simp
  then have b: "(2::real) powr (of_int (int n + 1)) = 2 ^ Suc n"
    by (simp only: powr_realpow [OF zero_less_numeral])
  have bounds: "2 powr (of_int (int n)) \<le> \<bar>x\<bar> \<and> \<bar>x\<bar> < 2 powr (of_int (int n + 1))"
    unfolding a b using lo hi by simp
  have "(1::real) < 2" by simp
  from floor_log_eq_powr_iff [OF pos this, of "int n"] bounds
  have "\<lfloor>log 2 \<bar>x\<bar>\<rfloor> = int n" by blast
  moreover have "(2::real) powr (of_int (int n - 52)) = 1 / 2 ^ (52 - n)"
  proof -
    have "of_int (int n - 52) = - real (52 - n)" using n by simp
    then show ?thesis using two_powr_minus [of "52 - n"] by (simp only:)
  qed
  ultimately show ?thesis using pos by (simp add: round_double_def Let_def)
qed

lemma round_difference: "round_double (d09 - d03) = d06u"
proof -
  have "round_double (d09 - d03)
      = of_int (round_half_even ((d09 - d03) * 2 ^ (0 + 53))) / 2 ^ (0 + 53)"
    by (rule round_double_below_one) (simp_all add: d03_def d09_def)
  also have "\<dots> = d06u"
    by (simp add: d03_def d09_def d06u_def round_half_even_def Let_def)
  finally show ?thesis .
qed

lemma round_sum: "round_double (d03 + d06u) = d09u"
proof -
  have "round_double (d03 + d06u)
      = of_int (round_half_even ((d03 + d06u) * 2 ^ (0 + 53))) / 2 ^ (0 + 53)"
    by (rule round_double_below_one) (simp_all add: d03_def d06u_def)
  also have "\<dots> = d09u"
    by (simp add: d03_def d06u_def d09u_def round_half_even_def Let_def)
  finally show ?thesis .
qed

lemma round_step: "round_double (3 / 4) = 3 / 4"
proof -
  have "round_double (3 / 4)
      = of_int (round_half_even ((3 / 4) * 2 ^ (0 + 53))) / 2 ^ (0 + 53)"
    by (rule round_double_below_one) simp_all
  also have "\<dots> = 3 / 4"
    by (simp add: round_half_even_def Let_def)
  finally show ?thesis .
qed

lemma example_order:
  "\<bar>d06u\<bar> < 3 / 4" "d06u \<noteq> 0" "\<not> d09u < 0" "0 < d09 - d03" "d09 - d09u < 0"
  by (simp_all add: d03_def d09_def d06u_def d09u_def)

text \<open>
  Claim C7 fails on the code. Node 1 stands at \<open>x = 0.3\<close> and its target is
  \<open>x = 0.9\<close>, both non-negative, so the remaining distance is positive. One tick with
  the velocity \<open>(0.75, 0)\<close> and \<open>dt = 1\<close> would step past the target, and the guard
  against overshoot replaces the step by \<^verbatim>\<open>x2 - x1\<close>, which rounds to
  \<open>0.6000000000000001\<close>. The new position \<^verbatim>\<open>x1 + dx\<close> rounds to
  \<open>0.9000000000000001\<close>, beyond the target: the remaining distance is now negative,
  neither of the same sign as before nor zero.
\<close>

theorem movenode_overshoots_by_rounding:
  "(case movenode round_double example_near_target 1 1 of
      Inl err \<Rightarrow> False
    | Inr (moved, s') \<Rightarrow> moved \<and> node_position s' 1 = (Some d09u, Some 0, None))
   \<and> 0 < d09 - d03
   \<and> d09 - d09u < 0"
  using example_order
  by (simp add: movenode_def example_near_target_def init_mobility_def setnodeposition_def
      Let_def round_step round_difference round_sum)

text \<open>
  With exact arithmetic (\<open>fl\<close> the identity) the same move ends on the target.
\<close>

lemma movenode_exact_arithmetic_example:
  "(case movenode (\<lambda>x. x) example_near_target 1 1 of
      Inl err \<Rightarrow> False
    | Inr (moved, s') \<Rightarrow> moved \<and> node_position s' 1 = (Some d09, Some 0, None))"
  by (simp add: movenode_def example_near_target_def init_mobility_def setnodeposition_def
      Let_def d03_def d09_def)

lemma round_small_integers:
  "round_double 2 = 2" "round_double 5 = 5" "round_double (- 8) = - 8" "round_double 10 = 10"
proof -
  have "round_double 2 = of_int (round_half_even (2 * 2 ^ (52 - 1))) / 2 ^ (52 - 1)"
    by (rule round_double_from_one) simp_all
  then show "round_double 2 = 2" by (simp add: round_half_even_def Let_def)
  have "round_double 5 = of_int (round_half_even (5 * 2 ^ (52 - 2))) / 2 ^ (52 - 2)"
    by (rule round_double_from_one) simp_all
  then show "round_double 5 = 5" by (simp add: round_half_even_def Let_def)
  have "round_double (- 8) = of_int (round_half_even (- 8 * 2 ^ (52 - 3))) / 2 ^ (52 - 3)"
    by (rule round_double_from_one) simp_all
  then show "round_double (- 8) = - 8" by (simp add: round_half_even_def Let_def)
  have "round_double 10 = of_int (round_half_even (10 * 2 ^ (52 - 3))) / 2 ^ (52 - 3)"
    by (rule round_double_from_one) simp_all
  then show "round_double 10 = 10" by (simp add: round_half_even_def Let_def)
qed

text \<open>
  The clamp to non-negative coordinates overshoots as well. Node 1 stands at \<open>x = -10\<close>
  with the target \<open>x = -5\<close>; one tick with the velocity \<open>(2, 0)\<close> and \<open>dt = 1\<close> gives
  \<open>x = -8\<close>, which the clamp replaces by \<open>0\<close>, beyond the target. Every value of this
  move is a small integer, which rounding leaves as it is.
\<close>

lemma movenode_negative_start_example:
  "(case movenode round_double example_negative_start 1 1 of
      Inl err \<Rightarrow> False
    | Inr (moved, s') \<Rightarrow> moved \<and> node_position s' 1 = (Some 0, Some 0, None))"
  by (simp add: movenode_def example_negative_start_def init_mobility_def
      setnodeposition_def Let_def round_small_integers)

text \<open>
  An instantaneous move (speed 0) puts the node on the target without the clamp,
  whatever the rounding: a negative target coordinate gives a negative position.
\<close>

lemma movenode_instant_negative_example:
  "(case movenode fl example_instant_negative 1 1 of
      Inl err \<Rightarrow> False
    | Inr (moved, s') \<Rightarrow> moved \<and> node_position s' 1 = (Some (- 5), Some 0, None))"
  by (simp add: movenode_def example_instant_negative_def example_running_def
      init_mobility_def setnodeposition_def Let_def)

section \<open>The link rule: theorems\<close>

lemma calclink_step:
  assumes ne: "netif \<noteq> netif2"
    and p1: "map_of (netifs s) netif = Some (Some x, Some y, z)"
    and p2: "map_of (netifs s) netif2 = Some (Some x2, Some y2, z2)"
    and dist: "calcdistance (Some x, Some y, z) (Some x2, Some y2, z2) = Inr d"
    and att: "netif \<in> attached (wlan s)" "netif2 \<in> attached (wlan s)"
    and ab: "a = min netif netif2" "b = max netif netif2"
  shows "\<exists>s'. calclink s netif netif2 = Inr s'
     \<and> (if d > range_limit s \<and> link_state (wlan s) a b
         then sent s' = sent s @ [LinkDelete a b] \<and> \<not> link_state (wlan s') a b
         else if d \<le> range_limit s \<and> \<not> link_state (wlan s) a b
         then sent s' = sent s @ [LinkAdd a b] \<and> link_state (wlan s') a b
         else sent s' = sent s \<and> link_state (wlan s') a b = link_state (wlan s) a b)
     \<and> netifs s' = netifs s \<and> range_limit s' = range_limit s
     \<and> attached (wlan s') = attached (wlan s)"
proof -
  have att': "a \<in> attached (wlan s)" "b \<in> attached (wlan s)"
    using att ab by (simp_all add: min_def max_def)
  show ?thesis
  proof (cases "linked_tbl (wlan s) (a, b)")
    case None
    then show ?thesis
      using ne p1 p2 dist att' ab [symmetric]
      by (simp add: calclink_def wlan_linked_def link_state_def sendlinkmsg_def
          wlan_link_def wlan_unlink_def Let_def)
  next
    case (Some v)
    then show ?thesis
      using ne p1 p2 dist att' ab [symmetric]
      by (simp add: calclink_def wlan_linked_def link_state_def sendlinkmsg_def
          wlan_link_def wlan_unlink_def Let_def)
  qed
qed

text \<open>
  Claim C1. For two distinct endpoints of the segment that are both placed, one
  evaluation of the link rule returns and emits at most one message, under the key
  \<open>(a, b) = (min, max)\<close> of the pair: with the distance above the range and the pair
  linked it emits exactly one unlink message and the pair becomes unlinked; with the
  distance within the range and the pair not linked it emits exactly one link message
  and the pair becomes linked; otherwise it emits nothing and the link state stays.
  Evaluating the rule again on the resulting state, the positions unchanged, emits
  nothing and leaves the link state as it is.
\<close>

theorem calclink_threshold:
  assumes ne: "netif \<noteq> netif2"
    and p1: "map_of (netifs s) netif = Some (Some x, Some y, z)"
    and p2: "map_of (netifs s) netif2 = Some (Some x2, Some y2, z2)"
    and dist: "calcdistance (Some x, Some y, z) (Some x2, Some y2, z2) = Inr d"
    and att: "netif \<in> attached (wlan s)" "netif2 \<in> attached (wlan s)"
    and ab: "a = min netif netif2" "b = max netif netif2"
  shows "\<exists>s'. calclink s netif netif2 = Inr s'
     \<and> (if d > range_limit s \<and> link_state (wlan s) a b
         then sent s' = sent s @ [LinkDelete a b] \<and> \<not> link_state (wlan s') a b
         else if d \<le> range_limit s \<and> \<not> link_state (wlan s) a b
         then sent s' = sent s @ [LinkAdd a b] \<and> link_state (wlan s') a b
         else sent s' = sent s \<and> link_state (wlan s') a b = link_state (wlan s) a b)
     \<and> (\<exists>s''. calclink s' netif netif2 = Inr s'' \<and> sent s'' = sent s'
            \<and> link_state (wlan s'') a b = link_state (wlan s') a b)"
proof -
  from calclink_step [OF ne p1 p2 dist att ab]
  obtain s' where s': "calclink s netif netif2 = Inr s'"
    and ev: "if d > range_limit s \<and> link_state (wlan s) a b
         then sent s' = sent s @ [LinkDelete a b] \<and> \<not> link_state (wlan s') a b
         else if d \<le> range_limit s \<and> \<not> link_state (wlan s) a b
         then sent s' = sent s @ [LinkAdd a b] \<and> link_state (wlan s') a b
         else sent s' = sent s \<and> link_state (wlan s') a b = link_state (wlan s) a b"
    and fr: "netifs s' = netifs s" "range_limit s' = range_limit s"
       "attached (wlan s') = attached (wlan s)"
    by blast
  have stable: "\<not> (d > range_limit s' \<and> link_state (wlan s') a b)"
    "\<not> (d \<le> range_limit s' \<and> \<not> link_state (wlan s') a b)"
    using ev fr(2) by (auto split: if_splits)
  from calclink_step [of netif netif2 s' x y z x2 y2 z2 d a b] ne p1 p2 dist att ab fr
  obtain s'' where s'': "calclink s' netif netif2 = Inr s''"
    and ev2: "if d > range_limit s' \<and> link_state (wlan s') a b
         then sent s'' = sent s' @ [LinkDelete a b] \<and> \<not> link_state (wlan s'') a b
         else if d \<le> range_limit s' \<and> \<not> link_state (wlan s') a b
         then sent s'' = sent s' @ [LinkAdd a b] \<and> link_state (wlan s'') a b
         else sent s'' = sent s' \<and> link_state (wlan s'') a b = link_state (wlan s') a b"
    by auto
  from ev2 stable have "sent s'' = sent s' \<and> link_state (wlan s'') a b = link_state (wlan s') a b"
    by (simp split: if_splits)
  with s' ev s'' show ?thesis by blast
qed

lemmas range_model_eval =
  set_position_def calclink_def wlan_linked_def wlan_link_def wlan_unlink_def
  sendlinkmsg_def link_state_def calcdistance_def hypot_zero_right Let_def
  scenario_model_def scenario_wlan_def init_range_model_def

lemma scenario_A_first:
  "(case set_positions scenario_model
           [(1, (Some 0, Some 0, None)), (2, (Some 300, Some 0, None))] of
      Inl err \<Rightarrow> False
    | Inr s \<Rightarrow> sent s = [] \<and> link_state (wlan s) 1 2 = False)"
  by (simp add: range_model_eval)

lemma scenario_A_link:
  "(case set_positions scenario_model
           [(1, (Some 0, Some 0, None)), (2, (Some 300, Some 0, None)),
            (2, (Some 200, Some 0, None))] of
      Inl err \<Rightarrow> False
    | Inr s \<Rightarrow> sent s = [LinkAdd 1 2] \<and> link_state (wlan s) 1 2 = True)"
  by (simp add: range_model_eval)

lemma scenario_A_unlink:
  "(case set_positions scenario_model
           [(1, (Some 0, Some 0, None)), (2, (Some 300, Some 0, None)),
            (2, (Some 200, Some 0, None)), (2, (Some 400, Some 0, None))] of
      Inl err \<Rightarrow> False
    | Inr s \<Rightarrow> sent s = [LinkAdd 1 2, LinkDelete 1 2] \<and> link_state (wlan s) 1 2 = False)"
  by (simp add: range_model_eval)

lemma scenario_A_repeat:
  "(case set_positions scenario_model
           [(1, (Some 0, Some 0, None)), (2, (Some 300, Some 0, None)),
            (2, (Some 200, Some 0, None)), (2, (Some 400, Some 0, None)),
            (2, (Some 400, Some 0, None)), (1, (Some 0, Some 0, None))] of
      Inl err \<Rightarrow> False
    | Inr s \<Rightarrow> sent s = [LinkAdd 1 2, LinkDelete 1 2] \<and> link_state (wlan s) 1 2 = False)"
  by (simp add: range_model_eval)

theorem calclink_threshold_witness:
  "(\<exists>s'. calclink scenario_placed 2 1 = Inr s'
      \<and> sent s' = [LinkAdd 1 2] \<and> link_state (wlan s') 1 2
      \<and> (\<exists>s''. calclink s' 2 1 = Inr s'' \<and> sent s'' = sent s'
             \<and> link_state (wlan s'') 1 2 = link_state (wlan s') 1 2))
   \<and> (case set_positions scenario_model
           [(1, (Some 0, Some 0, None)), (2, (Some 300, Some 0, None)),
            (2, (Some 200, Some 0, None)), (2, (Some 400, Some 0, None)),
            (2, (Some 400, Some 0, None)), (1, (Some 0, Some 0, None))] of
      Inl err \<Rightarrow> False
    | Inr s \<Rightarrow> sent s = [LinkAdd 1 2, LinkDelete 1 2] \<and> link_state (wlan s) 1 2 = False)"
proof -
  have d: "calcdistance (Some 200, Some 0, None) (Some 0, Some 0, None) = Inr 200"
    by (simp add: calcdistance_def hypot_zero_right)
  have "\<exists>s'. calclink scenario_placed 2 1 = Inr s'
      \<and> sent s' = [LinkAdd 1 2] \<and> link_state (wlan s') 1 2
      \<and> (\<exists>s''. calclink s' 2 1 = Inr s'' \<and> sent s'' = sent s'
             \<and> link_state (wlan s'') 1 2 = link_state (wlan s') 1 2)"
    using calclink_threshold [of 2 1 scenario_placed 200 0 None 0 0 None 200 1 2] d
    by (simp add: scenario_placed_def scenario_model_def scenario_wlan_def
        init_range_model_def link_state_def)
  with scenario_A_repeat show ?thesis by blast
qed

section \<open>The batch update: theorems\<close>

lemma update_Nil: "update s [] = Inr (s, [])"
  by (simp add: update.simps)

lemma update_snoc:
  "update s (xs @ [x]) =
     (let s1 = (if x \<in> fst ` set (netifs s)
                then s\<lparr>netifs := AList.update x (getposition s x) (netifs s)\<rparr> else s)
      in case update_inner s1 x xs (map fst (netifs s1)) of
           Inl e \<Rightarrow> Inl e
         | Inr s' \<Rightarrow> update s' xs)"
  by (subst update.simps) (simp add: Let_def)

lemma calclink_evaluated:
  "calclink s n n2 = Inr s' \<Longrightarrow>
     netifs s' = netifs s \<and> getposition s' = getposition s
     \<and> evaluated s' = evaluated s @ [(n, n2)]"
  by (auto simp: calclink_def Let_def sendlinkmsg_def
      split: if_splits option.splits sum.splits prod.splits)

lemma update_inner_evaluated:
  "update_inner s n moved ks = Inr s' \<Longrightarrow>
     netifs s' = netifs s \<and> getposition s' = getposition s
     \<and> evaluated s' = evaluated s @ map (Pair n) (filter (\<lambda>k. k \<notin> set moved) ks)"
proof (induction ks arbitrary: s)
  case Nil
  then show ?case by simp
next
  case (Cons k ks)
  show ?case
  proof (cases "k \<in> set moved")
    case True
    with Cons show ?thesis by simp
  next
    case False
    with Cons.prems obtain s1 where c: "calclink s n k = Inr s1"
      and r: "update_inner s1 n moved ks = Inr s'"
      by (auto split: sum.splits)
    from calclink_evaluated [OF c] Cons.IH [OF r] False show ?thesis by simp
  qed
qed

lemma keys_update_known:
  "x \<in> fst ` set al \<Longrightarrow> map fst (AList.update x v al) = map fst al"
  by (simp add: update_keys)

lemma update_evaluated:
  "update s moved = Inr (s', moved') \<Longrightarrow>
     moved' = [] \<and> map fst (netifs s') = map fst (netifs s)
     \<and> getposition s' = getposition s
     \<and> evaluated s' = evaluated s @ popped_pairs (rev moved) (map fst (netifs s))"
proof (induction moved arbitrary: s rule: rev_induct)
  case Nil
  then show ?case by (simp add: update_Nil)
next
  case (snoc x xs)
  define s1 where "s1 = (if x \<in> fst ` set (netifs s)
      then s\<lparr>netifs := AList.update x (getposition s x) (netifs s)\<rparr> else s)"
  have k1: "map fst (netifs s1) = map fst (netifs s)"
    by (simp add: s1_def keys_update_known)
  have g1: "getposition s1 = getposition s" "evaluated s1 = evaluated s"
    by (simp_all add: s1_def)
  from snoc.prems obtain s2 where i: "update_inner s1 x xs (map fst (netifs s1)) = Inr s2"
    and r: "update s2 xs = Inr (s', moved')"
    unfolding update_snoc s1_def [symmetric] by (auto simp: Let_def split: sum.splits)
  from update_inner_evaluated [OF i] snoc.IH [OF r] k1 g1 show ?case by simp
qed

lemma count_list_distinct:
  "distinct ks \<Longrightarrow> count_list ks b = (if b \<in> set ks then 1 else 0)"
  by (induction ks) auto

lemma count_list_Pair:
  "count_list (map (Pair x) ks) (a, b) = (if x = a then count_list ks b else 0)"
  by (induction ks) auto

lemma count_popped_pairs:
  assumes "distinct ks"
  shows "distinct order \<Longrightarrow>
     count_list (popped_pairs order ks) (a, b) =
       (if a \<in> set order \<and> b \<in> set ks \<and> b \<notin> set (tl (dropWhile (\<lambda>x. x \<noteq> a) order))
        then 1 else 0)"
proof (induction order)
  case Nil
  show ?case by simp
next
  case (Cons x remaining)
  have f: "count_list (filter (\<lambda>k. k \<notin> set remaining) ks) b
      = (if b \<in> set ks \<and> b \<notin> set remaining then 1 else 0)"
    using assms by (simp add: count_list_distinct)
  show ?case
  proof (cases "x = a")
    case True
    with Cons.prems have "a \<notin> set remaining" by simp
    with Cons True f show ?thesis by (simp add: count_list_Pair)
  next
    case False
    with Cons f show ?thesis by (simp add: count_list_Pair)
  qed
qed

lemma calclink_returns:
  assumes "case map_of (netifs s) n of None \<Rightarrow> True | Some p \<Rightarrow> placed p"
  shows "\<exists>s'. calclink s n k = Inr s'"
proof (cases "map_of (netifs s) n")
  case None
  then show ?thesis by (simp add: calclink_def Let_def)
next
  case (Some p)
  with assms obtain x y z where p: "p = (Some x, Some y, z)"
    by (cases p) (auto simp: placed_def)
  show ?thesis
  proof (cases "map_of (netifs s) k")
    case None
    with Some show ?thesis by (simp add: calclink_def Let_def p)
  next
    case k: (Some q)
    obtain x2 y2 z2 where q: "q = (x2, y2, z2)" by (cases q)
    show ?thesis
    proof (cases "x2 = None \<or> y2 = None")
      case True
      with Some k show ?thesis by (auto simp: calclink_def Let_def p q)
    next
      case False
      then obtain u v where uv: "x2 = Some u" "y2 = Some v" by auto
      have "calcdistance (Some x, Some y, z) (Some u, Some v, z2)
          = Inr (sqrt ((x - u)\<^sup>2 + (y - v)\<^sup>2 + (zterm z z2)\<^sup>2))"
        by (rule calcdistance_placed)
      with Some k show ?thesis
        by (simp add: calclink_def Let_def p q uv wlan_linked_def split: option.splits)
    qed
  qed
qed

lemma update_inner_returns:
  assumes "case map_of (netifs s) n of None \<Rightarrow> True | Some p \<Rightarrow> placed p"
  shows "\<exists>s'. update_inner s n moved ks = Inr s'"
  using assms
proof (induction ks arbitrary: s)
  case Nil
  show ?case by simp
next
  case (Cons k ks)
  show ?case
  proof (cases "k \<in> set moved")
    case True
    with Cons show ?thesis by simp
  next
    case False
    from calclink_returns [OF Cons.prems] obtain s1 where c: "calclink s n k = Inr s1" by blast
    from calclink_evaluated [OF c] Cons.prems
    have "case map_of (netifs s1) n of None \<Rightarrow> True | Some p \<Rightarrow> placed p" by simp
    from Cons.IH [OF this] c False show ?thesis by simp
  qed
qed

lemma update_returns:
  "\<forall>n \<in> set moved. placed (getposition s n) \<Longrightarrow> \<exists>s'. update s moved = Inr (s', [])"
proof (induction moved arbitrary: s rule: rev_induct)
  case Nil
  show ?case by (simp add: update_Nil)
next
  case (snoc x xs)
  define s1 where "s1 = (if x \<in> fst ` set (netifs s)
      then s\<lparr>netifs := AList.update x (getposition s x) (netifs s)\<rparr> else s)"
  have "case map_of (netifs s1) x of None \<Rightarrow> True | Some p \<Rightarrow> placed p"
  proof (cases "x \<in> fst ` set (netifs s)")
    case True
    with snoc.prems show ?thesis by (simp add: s1_def update_conv')
  next
    case False
    then have "map_of (netifs s) x = None" by (simp add: map_of_eq_None_iff)
    with False show ?thesis by (simp add: s1_def)
  qed
  from update_inner_returns [OF this]
  obtain s2 where i: "update_inner s1 x xs (map fst (netifs s1)) = Inr s2" by blast
  have "getposition s2 = getposition s"
    using update_inner_evaluated [OF i] by (simp add: s1_def)
  with snoc.prems have "\<forall>n \<in> set xs. placed (getposition s2 n)" by simp
  from snoc.IH [OF this] obtain s' where "update s2 xs = Inr (s', [])" by blast
  with i show ?case
    unfolding update_snoc s1_def [symmetric] by (simp add: Let_def)
qed

lemma remaining_when_popped:
  assumes "distinct xs" "a \<in> set xs"
  shows "tl (dropWhile (\<lambda>x. x \<noteq> a) (rev xs)) = rev (takeWhile (\<lambda>x. x \<noteq> a) xs)"
proof -
  from assms(2) obtain ys zs where xs: "xs = ys @ a # zs" and ys: "a \<notin> set ys"
    by (auto dest: split_list_first)
  with assms(1) have zs: "a \<notin> set zs" by simp
  have t: "takeWhile (\<lambda>x. x \<noteq> a) (ys @ a # zs) = ys"
    using ys by (induction ys) auto
  have d: "dropWhile (\<lambda>x. x \<noteq> a) (rev zs @ a # rev ys) = a # rev ys"
    using zs by (induction zs rule: rev_induct) auto
  show ?thesis unfolding xs by (simp add: t d)
qed

lemma one_comes_first:
  "a \<noteq> b \<Longrightarrow> a \<in> set xs \<Longrightarrow> b \<in> set xs \<Longrightarrow>
     (b \<in> set (takeWhile (\<lambda>x. x \<noteq> a) xs)) = (a \<notin> set (takeWhile (\<lambda>x. x \<noteq> b) xs))"
  by (induction xs) auto

lemma count_pass:
  assumes dm: "distinct moved" and dk: "distinct (map fst (netifs s))"
    and up: "update s moved = Inr (s', moved')"
    and b: "b \<in> fst ` set (netifs s)"
  shows "count_list (pass_evaluations s s') (a, b) =
     (if a \<in> set moved \<and> b \<notin> set (takeWhile (\<lambda>x. x \<noteq> a) moved) then 1 else 0)"
proof -
  from update_evaluated [OF up]
  have "pass_evaluations s s' = popped_pairs (rev moved) (map fst (netifs s))"
    by (simp add: pass_evaluations_def)
  moreover have "distinct (rev moved)" using dm by simp
  ultimately have "count_list (pass_evaluations s s') (a, b) =
      (if a \<in> set moved \<and> b \<notin> set (tl (dropWhile (\<lambda>x. x \<noteq> a) (rev moved))) then 1 else 0)"
    using count_popped_pairs [OF dk, of "rev moved" a b] b by simp
  then show ?thesis
    using remaining_when_popped [OF dm, of a] by auto
qed

text \<open>
  The completed pass. When every moved endpoint's node is placed (x and y present), the
  batch update returns. A pair of distinct known endpoints with both members in the
  moved list is then evaluated exactly once, from the member that stands earlier in the
  caller's list, which is popped later, when the other member has already been taken
  off the list. A pair with one moved and one unmoved member is evaluated exactly once,
  from the moved member against the unmoved one. A pair with no moved member is not
  evaluated. The caller's list has no duplicate, and the keys of the association list
  are distinct, as the keys of the dictionary are.
\<close>

lemma update_completed_pass:
  assumes dm: "distinct moved" and dk: "distinct (map fst (netifs s))"
    and pl: "\<forall>n \<in> set moved. placed (getposition s n)"
    and ab: "a \<noteq> b" "a \<in> fst ` set (netifs s)" "b \<in> fst ` set (netifs s)"
  shows "\<exists>s'. update s moved = Inr (s', [])
     \<and> count_list (pass_evaluations s s') (a, b) + count_list (pass_evaluations s s') (b, a) \<le> 1
     \<and> (a \<in> set moved \<and> b \<in> set moved \<longrightarrow>
          count_list (pass_evaluations s s') (a, b) + count_list (pass_evaluations s s') (b, a) = 1)
     \<and> (a \<in> set moved \<and> b \<in> set moved \<and> a \<in> set (takeWhile (\<lambda>x. x \<noteq> b) moved) \<longrightarrow>
          count_list (pass_evaluations s s') (a, b) = 1
          \<and> count_list (pass_evaluations s s') (b, a) = 0)
     \<and> (a \<in> set moved \<and> b \<notin> set moved \<longrightarrow>
          count_list (pass_evaluations s s') (a, b) = 1
          \<and> count_list (pass_evaluations s s') (b, a) = 0)
     \<and> (a \<notin> set moved \<and> b \<notin> set moved \<longrightarrow>
          count_list (pass_evaluations s s') (a, b) = 0
          \<and> count_list (pass_evaluations s s') (b, a) = 0)"
proof -
  from update_returns [OF pl] obtain s' where up: "update s moved = Inr (s', [])" by blast
  note cab = count_pass [OF dm dk up ab(3), of a]
  note cba = count_pass [OF dm dk up ab(2), of b]
  have notin: "b \<notin> set moved \<Longrightarrow> b \<notin> set (takeWhile (\<lambda>x. x \<noteq> a) moved)"
    by (auto dest: set_takeWhileD)
  have both: "a \<in> set moved \<Longrightarrow> b \<in> set moved \<Longrightarrow>
      (b \<in> set (takeWhile (\<lambda>x. x \<noteq> a) moved)) = (a \<notin> set (takeWhile (\<lambda>x. x \<noteq> b) moved))"
    using one_comes_first [OF ab(1)] by blast
  have "count_list (pass_evaluations s s') (a, b) + count_list (pass_evaluations s s') (b, a) \<le> 1"
    using cab cba both by (cases "a \<in> set moved"; cases "b \<in> set moved") auto
  moreover have "a \<in> set moved \<and> b \<in> set moved \<longrightarrow>
      count_list (pass_evaluations s s') (a, b) + count_list (pass_evaluations s s') (b, a) = 1"
    using cab cba both by auto
  moreover have "a \<in> set moved \<and> b \<in> set moved \<and> a \<in> set (takeWhile (\<lambda>x. x \<noteq> b) moved) \<longrightarrow>
      count_list (pass_evaluations s s') (a, b) = 1 \<and> count_list (pass_evaluations s s') (b, a) = 0"
    using cab cba both by auto
  moreover have "a \<in> set moved \<and> b \<notin> set moved \<longrightarrow>
      count_list (pass_evaluations s s') (a, b) = 1 \<and> count_list (pass_evaluations s s') (b, a) = 0"
    using cab cba notin by auto
  moreover have "a \<notin> set moved \<and> b \<notin> set moved \<longrightarrow>
      count_list (pass_evaluations s s') (a, b) = 0 \<and> count_list (pass_evaluations s s') (b, a) = 0"
    using cab cba by auto
  ultimately show ?thesis using up by blast
qed

text \<open>
  Claim C10. The batch update consumes the caller's list: whenever \<open>update\<close> returns,
  the list of moved endpoints it was given is empty.
\<close>

theorem update_consumes_moved:
  "update s moved_netifs = Inr (s', moved_netifs') \<Longrightarrow> moved_netifs' = []"
proof (induction moved_netifs arbitrary: s rule: rev_induct)
  case Nil
  then show ?case by (simp add: update_Nil)
next
  case (snoc x xs)
  then show ?case
    unfolding update_snoc by (auto simp: Let_def split: sum.splits)
qed

theorem update_consumes_moved_witness:
  "\<exists>s' moved'. update example_three [1, 2] = Inr (s', moved') \<and> moved' = []"
proof -
  have "\<forall>n \<in> set [1, 2]. placed (getposition example_three n)"
    by (simp add: example_three_def init_range_model_def placed_def)
  from update_returns [OF this]
  obtain s' where r: "update example_three [1, 2] = Inr (s', [])" by blast
  from update_consumes_moved [OF r] r show ?thesis by blast
qed

lemma update_completed_pass_example:
  "\<exists>s'. update example_three [1, 2] = Inr (s', [])
     \<and> count_list (pass_evaluations example_three s') (1, 2) = 1
     \<and> count_list (pass_evaluations example_three s') (2, 1) = 0
     \<and> count_list (pass_evaluations example_three s') (2, 3) = 1
     \<and> count_list (pass_evaluations example_three s') (3, 2) = 0"
proof -
  have h: "distinct [1, 2 :: nat]" "distinct (map fst (netifs example_three))"
    "\<forall>n \<in> set [1, 2]. placed (getposition example_three n)"
    "(1 :: nat) \<noteq> 2" "1 \<in> fst ` set (netifs example_three)"
    "2 \<in> fst ` set (netifs example_three)" "(2 :: nat) \<noteq> 3"
    "3 \<in> fst ` set (netifs example_three)"
    by (simp_all add: example_three_def init_range_model_def placed_def)
  from update_completed_pass [OF h(1) h(2) h(3) h(4) h(5) h(6)]
  obtain s' where a: "update example_three [1, 2] = Inr (s', [])"
    "count_list (pass_evaluations example_three s') (1, 2) = 1"
    "count_list (pass_evaluations example_three s') (2, 1) = 0"
    by auto
  from update_completed_pass [OF h(1) h(2) h(3) h(7) h(6) h(8)] a(1)
  have "count_list (pass_evaluations example_three s') (2, 3) = 1"
    "count_list (pass_evaluations example_three s') (3, 2) = 0"
    by auto
  with a show ?thesis by blast
qed

lemma update_single:
  "update s [x] =
     (let s1 = (if x \<in> fst ` set (netifs s)
                then s\<lparr>netifs := AList.update x (getposition s x) (netifs s)\<rparr> else s)
      in case update_inner s1 x [] (map fst (netifs s1)) of
           Inl e \<Rightarrow> Inl e
         | Inr s' \<Rightarrow> Inr (s', []))"
  using update_snoc [of s "[]" x] by (simp add: update_Nil cong: sum.case_cong)

lemma calclink_evaluated_raise:
  "calclink s n n2 = Inl (e, s') \<Longrightarrow> evaluated s' = evaluated s @ [(n, n2)]"
  by (auto simp: calclink_def Let_def sendlinkmsg_def
      split: if_splits option.splits sum.splits prod.splits)

lemma update_inner_prefix:
  "update_inner s n moved ks = Inl (e, s') \<Longrightarrow>
     \<exists>pre suf. evaluated s' = evaluated s @ pre
       \<and> map (Pair n) (filter (\<lambda>k. k \<notin> set moved) ks) = pre @ suf"
proof (induction ks arbitrary: s)
  case Nil
  then show ?case by simp
next
  case (Cons k ks)
  show ?case
  proof (cases "k \<in> set moved")
    case True
    with Cons show ?thesis by simp
  next
    case False
    show ?thesis
    proof (cases "calclink s n k")
      case (Inl r)
      with Cons.prems False have "r = (e, s')" by simp
      with Inl have "evaluated s' = evaluated s @ [(n, k)]"
        by (simp add: calclink_evaluated_raise)
      with False show ?thesis by simp
    next
      case (Inr s1)
      with Cons.prems False have "update_inner s1 n moved ks = Inl (e, s')" by simp
      from Cons.IH [OF this] obtain pre suf where
        "evaluated s' = evaluated s1 @ pre"
        "map (Pair n) (filter (\<lambda>k. k \<notin> set moved) ks) = pre @ suf"
        by blast
      with calclink_evaluated [OF Inr] False
      have "evaluated s' = evaluated s @ ((n, k) # pre)
          \<and> map (Pair n) (filter (\<lambda>k. k \<notin> set moved) (k # ks)) = ((n, k) # pre) @ suf"
        by simp
      then show ?thesis by blast
    qed
  qed
qed

lemma update_prefix:
  "update s moved = Inl (e, s') \<Longrightarrow>
     \<exists>pre suf. evaluated s' = evaluated s @ pre
       \<and> popped_pairs (rev moved) (map fst (netifs s)) = pre @ suf"
proof (induction moved arbitrary: s rule: rev_induct)
  case Nil
  then show ?case by (simp add: update_Nil)
next
  case (snoc x xs)
  define s1 where "s1 = (if x \<in> fst ` set (netifs s)
      then s\<lparr>netifs := AList.update x (getposition s x) (netifs s)\<rparr> else s)"
  have k1: "map fst (netifs s1) = map fst (netifs s)"
    by (simp add: s1_def keys_update_known)
  have g1: "evaluated s1 = evaluated s"
    by (simp add: s1_def)
  let ?row = "map (Pair x) (filter (\<lambda>k. k \<notin> set xs) (map fst (netifs s)))"
  show ?case
  proof (cases "update_inner s1 x xs (map fst (netifs s1))")
    case (Inl r)
    with snoc.prems have "r = (e, s')"
      unfolding update_snoc s1_def [symmetric] by (simp add: Let_def)
    with Inl update_inner_prefix [of s1 x xs "map fst (netifs s1)" e s']
    obtain pre suf where "evaluated s' = evaluated s1 @ pre" "?row = pre @ suf"
      unfolding k1 by blast
    then have "evaluated s' = evaluated s @ pre
        \<and> popped_pairs (rev (xs @ [x])) (map fst (netifs s))
            = pre @ (suf @ popped_pairs (rev xs) (map fst (netifs s)))"
      by (simp add: g1)
    then show ?thesis by blast
  next
    case (Inr s2)
    with snoc.prems have "update s2 xs = Inl (e, s')"
      unfolding update_snoc s1_def [symmetric] by (simp add: Let_def)
    from snoc.IH [OF this] obtain pre suf where
      "evaluated s' = evaluated s2 @ pre"
      "popped_pairs (rev xs) (map fst (netifs s2)) = pre @ suf"
      by blast
    with update_inner_evaluated [OF Inr] k1 g1
    have "evaluated s' = evaluated s @ (?row @ pre)
        \<and> popped_pairs (rev (xs @ [x])) (map fst (netifs s)) = (?row @ pre) @ suf"
      by simp
    then show ?thesis by blast
  qed
qed

text \<open>
  At most once, in every pass. Whether the batch update returns or raises, no unordered
  pair of distinct endpoints is evaluated twice in the pass.
\<close>

lemma update_at_most_once:
  assumes dm: "distinct moved" and dk: "distinct (map fst (netifs s))" and ab: "a \<noteq> b"
  shows "count_list (pass_evaluations s (pass_result (update s moved))) (a, b)
       + count_list (pass_evaluations s (pass_result (update s moved))) (b, a) \<le> 1"
proof -
  let ?whole = "popped_pairs (rev moved) (map fst (netifs s))"
  have c: "count_list ?whole (u, v) =
      (if u \<in> set moved \<and> v \<in> set (map fst (netifs s))
          \<and> v \<notin> set (takeWhile (\<lambda>x. x \<noteq> u) moved) then 1 else 0)" for u v
    using count_popped_pairs [OF dk, of "rev moved" u v] dm remaining_when_popped [OF dm, of u]
    by auto
  have whole: "count_list ?whole (a, b) + count_list ?whole (b, a) \<le> 1"
  proof (cases "a \<in> set moved \<and> b \<in> set moved")
    case True
    with one_comes_first [OF ab, of moved] show ?thesis by (auto simp: c)
  next
    case False
    have "v \<notin> set moved \<Longrightarrow> v \<notin> set (takeWhile (\<lambda>x. x \<noteq> u) moved)" for u v
      by (auto dest: set_takeWhileD)
    with False show ?thesis by (auto simp: c)
  qed
  obtain pre suf where pre: "pass_evaluations s (pass_result (update s moved)) = pre"
    "?whole = pre @ suf"
  proof (cases "update s moved")
    case (Inl r)
    obtain e s' where r: "r = (e, s')" by (cases r)
    from update_prefix [OF Inl [unfolded r]] obtain pre suf where
      "evaluated s' = evaluated s @ pre" "?whole = pre @ suf" by blast
    with Inl r that show ?thesis by (simp add: pass_result_def pass_evaluations_def)
  next
    case (Inr r)
    obtain s' m where r: "r = (s', m)" by (cases r)
    from update_evaluated [OF Inr [unfolded r]] Inr r that [of ?whole "[]"]
    show ?thesis by (simp add: pass_result_def pass_evaluations_def)
  qed
  have "count_list pre p \<le> count_list ?whole p" for p
    by (simp add: pre(2))
  from this [of "(a, b)"] this [of "(b, a)"] whole show ?thesis
    unfolding pre(1) by linarith
qed

text \<open>
  Claim C6 fails on the code. In \<open>example_unplaced\<close> the endpoints 1, 2 and 3 are
  known and only endpoint 1 has moved, to a node position without x and y. The pass
  copies that position into the table and evaluates the pairs (1, 1) and (1, 2); the
  second evaluation raises \<open>TypeError\<close> in \<open>calcdistance\<close>, because \<open>calclink\<close>
  tests only the second endpoint for a missing x or y. The update ends with that error,
  and the pair of the moved endpoint 1 and the unmoved endpoint 3 is never evaluated.
\<close>

theorem update_aborts_on_unplaced_node:
  "(case update example_unplaced [1] of
      Inl (err, s') \<Rightarrow>
        err = TypeError \<and> evaluated s' = [(1, 1), (1, 2)]
        \<and> count_list (pass_evaluations example_unplaced s') (1, 3) = 0
        \<and> count_list (pass_evaluations example_unplaced s') (3, 1) = 0
    | Inr r \<Rightarrow> False)"
  by (simp add: update_single example_unplaced_def example_three_def init_range_model_def
      calclink_def calcdistance_def pass_evaluations_def Let_def)

section \<open>Reading a trace: theorems\<close>

lemma short_line_raises:
  "script_line pyfloat st short_setdest_line =
     (case flush_initial st of Inl e \<Rightarrow> Inl (e, st) | Inr st' \<Rightarrow> Inl (IndexError, st'))"
  by (simp add: script_line_def setdest_line_def parse_setdest_def short_setdest_line_def
      split_ws_def is_space_def subscript_def ebind_def split: sum.splits prod.splits)

lemma short_line_prefix: "take 2 short_setdest_line = ''$n''"
  by (simp add: short_setdest_line_def)

text \<open>
  Claim C4 fails on the code. The trace whose first line is the scheduled-movement line
  \<^verbatim>\<open>$ns_ at\<close>, with too few fields, makes \<^verbatim>\<open>parts[2]\<close> raise \<open>IndexError\<close>, which the
  handler of \<open>ValueError\<close> does not catch: \<open>readscriptfile\<close> ends with that error,
  whatever \<^verbatim>\<open>float\<close> accepts and whatever lines follow, and the scheduler is left as it
  was, the following lines unread.
\<close>

theorem readscriptfile_aborts_on_short_line:
  "readscriptfile pyfloat s (Some (short_setdest_line # rest)) = Inl (IndexError, s)"
  by (simp add: readscriptfile_def short_line_raises short_line_prefix flush_initial_def)

lemma unrecognised_line_skipped:
  "(case readscriptfile example_float (init_mobility [] (\<lambda>n. (None, None, None)))
           (Some [''$nonsense'', good_setdest_line]) of
      Inl err \<Rightarrow> False
    | Inr s' \<Rightarrow>
        queue s' = [\<lparr>time = 1, nodenum = 0, coords = (Some 50, Some 50, None), speed = Scalar 5\<rparr>])"
  by (simp add: readscriptfile_def script_line_def setdest_line_def parse_setdest_def
      good_setdest_line_def example_float_def flush_initial_def init_mobility_def
      split_ws_def is_space_def subscript_def ebind_def to_float_def node_of_field_def
      str_index_def slice_def strip_char_def map_nodenum_def int_of_nodearg_def pyint_def
      strip_def is_digit_def digit_value_def addwaypoint_def heappush_def siftdown_def
      siftdown_loop.simps Let_def)

lemma good_line_after_short_line_unread:
  "readscriptfile example_float s (Some [short_setdest_line, good_setdest_line])
     = Inl (IndexError, s)"
  by (simp add: readscriptfile_def short_line_raises short_line_prefix flush_initial_def)

text \<open>
  A trace with a single \<^verbatim>\<open>Z_\<close> line for a node records an initial position without x
  and y, and \<open>movenodesinitial\<close> puts the node there and reports it as moved.
\<close>

lemma z_only_trace_gives_unplaced_node:
  "(case readscriptfile example_float (init_mobility [(1, 1)] (\<lambda>n. (Some 0, Some 0, None)))
           (Some [''$node_(1) set Z_ 5.0'']) of
      Inl err \<Rightarrow> False
    | Inr s' \<Rightarrow>
        initial s' 1 = Some \<lparr>time = 0, nodenum = 1, coords = (None, None, Some 5), speed = Scalar 0\<rparr>
        \<and> node_position (movenodesinitial s') 1 = (None, None, Some 5)
        \<and> effects (movenodesinitial s')
            = [BroadcastNode 1 (None, None, Some 5), UpdateWlans [1] [1]])"
  by (simp add: readscriptfile_def script_line_def node_line_def
      example_float_def flush_initial_def init_mobility_def
      split_ws_def is_space_def subscript_def ebind_def to_float_def node_of_field_def
      str_index_def slice_def map_nodenum_def int_of_nodearg_def pyint_def
      strip_def is_digit_def digit_value_def addinitial_def movenodesinitial_def
      setnodeposition_def Let_def)

section \<open>The waypoint queue: theorems\<close>

lemma parent_less [simp]: "0 < i \<Longrightarrow> parent i < i"
  by (simp add: parent_def)

lemma parent_le: "parent i \<le> i"
  by (simp add: parent_def)

lemma parent_child: "0 < c \<Longrightarrow> (parent c = p) = (c = 2 * p + 1 \<or> c = 2 * p + 2)"
  by (auto simp: parent_def)

lemma parent_fold [simp]: "(i - Suc 0) div 2 = parent i"
  by (simp add: parent_def)

lemma cmp_lt_iff: "cmp_lt x y = (\<not> wp_le y x)"
  by (auto simp: cmp_lt_def WayPoint_cmp_def cmp_def wp_le_def Let_def)

lemma wp_le_refl [simp]: "wp_le x x"
  by (simp add: wp_le_def)

lemma wp_le_trans: "wp_le x y \<Longrightarrow> wp_le y z \<Longrightarrow> wp_le x z"
  by (auto simp: wp_le_def)

lemma wp_le_total: "wp_le x y \<or> wp_le y x"
  by (auto simp: wp_le_def)

lemma heap_hole_step:
  assumes hh: "heap_hole h pos new" and pos: "0 < pos"
    and lt: "cmp_lt new (h ! parent pos)"
  shows "heap_hole (h[pos := h ! parent pos]) (parent pos) new"
proof -
  define pp where "pp = parent pos"
  define P where "P = h ! pp"
  have pp: "pp < pos" using pos by (simp add: pp_def)
  have len: "pos < length h" using hh by (simp add: heap_hole_def)
  have newP: "wp_le new P" using lt wp_le_total [of new P] by (auto simp: cmp_lt_iff pp_def P_def)
  have e1: "wp_le ((h[pos := new]) ! parent i) ((h[pos := new]) ! i)"
    if "0 < i" "i < length h" "i \<noteq> pos" for i
    using hh that by (simp add: heap_hole_def)
  have e2: "wp_le P (h ! c)" if "0 < c" "c < length h" "parent c = pos" for c
    using hh pos that by (simp add: heap_hole_def pp_def P_def)
  have sib: "wp_le P (h ! i)" if "0 < i" "i < length h" "i \<noteq> pos" "parent i = pp" for i
    using e1 [OF that(1,2,3)] that pp by (simp add: P_def)
  have gp: "wp_le (h ! parent pp) P" if "0 < pp"
  proof -
    have "parent pp < pp" using that by simp
    with e1 [of pp] that pp len show ?thesis by (simp add: P_def)
  qed
  let ?h2 = "h[pos := P]"
  have a: "wp_le ((?h2[pp := new]) ! parent i) ((?h2[pp := new]) ! i)"
    if i: "0 < i" "i < length h" "i \<noteq> pp" for i
  proof (cases "i = pos")
    case True
    then show ?thesis using pp len newP by (simp add: pp_def [symmetric])
  next
    case False
    show ?thesis
    proof (cases "parent i = pos")
      case True
      with e2 [OF i(1,2)] False i pp len show ?thesis by simp
    next
      case np: False
      show ?thesis
      proof (cases "parent i = pp")
        case True
        from sib [OF i(1,2) False True] newP have "wp_le new (h ! i)" by (rule wp_le_trans [rotated])
        with True False i pp len show ?thesis by simp
      next
        case False2: False
        from e1 [OF i(1,2) False] np False2 False i show ?thesis by simp
      qed
    qed
  qed
  have b: "wp_le (?h2 ! parent pp) (?h2 ! c)"
    if c: "0 < pp" "0 < c" "c < length h" "parent c = pp" for c
  proof -
    have "parent pp < pp" using c(1) by simp
    with pp have ne: "parent pp \<noteq> pos" by simp
    show ?thesis
    proof (cases "c = pos")
      case True
      with gp [OF c(1)] ne len show ?thesis by simp
    next
      case False
      from sib [OF c(2,3) False c(4)] gp [OF c(1)] have "wp_le (h ! parent pp) (h ! c)"
        by (rule wp_le_trans [rotated])
      with ne False show ?thesis by simp
    qed
  qed
  from a b pp len show ?thesis
    unfolding heap_hole_def pp_def [symmetric] P_def [symmetric] by simp
qed

lemma heap_hole_done:
  assumes hh: "heap_hole h pos new"
    and stop: "pos = 0 \<or> \<not> cmp_lt new (h ! parent pos)"
  shows "is_heap (h[pos := new])"
  unfolding is_heap_def
proof (intro allI impI)
  fix i assume i: "0 < i \<and> i < length (h[pos := new])"
  show "wp_le (h[pos := new] ! parent i) (h[pos := new] ! i)"
  proof (cases "i = pos")
    case False
    with hh i show ?thesis by (simp add: heap_hole_def)
  next
    case True
    with i stop have "wp_le (h ! parent pos) new" by (simp add: cmp_lt_iff)
    moreover have "parent pos \<noteq> pos" using True i by (simp add: less_imp_neq)
    ultimately show ?thesis using True i by simp
  qed
qed

lemma siftdown_loop_is_heap:
  "heap_hole h pos new \<Longrightarrow> is_heap (siftdown_loop h 0 pos new)"
proof (induction h "0::nat" pos new rule: siftdown_loop.induct)
  case (1 heap pos newitem)
  show ?case
  proof (cases "0 < pos \<and> cmp_lt newitem (heap ! parent pos)")
    case True
    then have "siftdown_loop heap 0 pos newitem
        = siftdown_loop (heap[pos := heap ! parent pos]) 0 (parent pos) newitem"
      by (subst siftdown_loop.simps) (simp add: Let_def)
    moreover have "is_heap (siftdown_loop (heap[pos := heap ! parent pos]) 0 (parent pos) newitem)"
      using True 1(2) by (intro 1(1)) (auto intro: heap_hole_step)
    ultimately show ?thesis by simp
  next
    case False
    then have "siftdown_loop heap 0 pos newitem = heap[pos := newitem]"
      by (subst siftdown_loop.simps) (auto simp: Let_def)
    with heap_hole_done [OF 1(2)] False show ?thesis by auto
  qed
qed

lemma mset_move_hole:
  assumes "pos < length h" "q < length h" "q \<noteq> pos"
  shows "mset (h[pos := h ! q, q := new]) = mset (h[pos := new])"
proof -
  let ?ls = "h[pos := new]"
  have "mset (?ls[pos := ?ls ! q, q := ?ls ! pos]) = mset ?ls"
    using assms by (intro mset_swap) simp_all
  then show ?thesis using assms by simp
qed

lemma siftdown_loop_mset:
  "pos < length h \<Longrightarrow> mset (siftdown_loop h 0 pos new) = mset (h[pos := new])"
proof (induction h "0::nat" pos new rule: siftdown_loop.induct)
  case (1 heap pos newitem)
  show ?case
  proof (cases "0 < pos \<and> cmp_lt newitem (heap ! parent pos)")
    case True
    then have pp: "parent pos < pos" by simp
    from True have "siftdown_loop heap 0 pos newitem
        = siftdown_loop (heap[pos := heap ! parent pos]) 0 (parent pos) newitem"
      by (subst siftdown_loop.simps) (simp add: Let_def)
    moreover have "mset (siftdown_loop (heap[pos := heap ! parent pos]) 0 (parent pos) newitem)
        = mset (heap[pos := heap ! parent pos, parent pos := newitem])"
      using True 1(2) pp by (intro 1(1)) auto
    moreover have "mset (heap[pos := heap ! parent pos, parent pos := newitem])
        = mset (heap[pos := newitem])"
      using 1(2) pp by (intro mset_move_hole) auto
    ultimately show ?thesis by simp
  next
    case False
    then have "siftdown_loop heap 0 pos newitem = heap[pos := newitem]"
      by (subst siftdown_loop.simps) (auto simp: Let_def)
    then show ?thesis by simp
  qed
qed

lemma is_heap_Nil [simp]: "is_heap []"
  by (simp add: is_heap_def)

lemma heappush_is_heap:
  assumes "is_heap h"
  shows "is_heap (heappush h item)"
proof -
  have "heap_hole (h @ [item]) (length h) item"
    unfolding heap_hole_def
  proof (intro conjI allI impI)
    show "length h < length (h @ [item])" by simp
  next
    fix i assume i: "0 < i \<and> i < length (h @ [item]) \<and> i \<noteq> length h"
    then have "i < length h" by simp
    moreover from this i have "parent i < length h" using parent_less [of i] by linarith
    ultimately show "wp_le ((h @ [item])[length h := item] ! parent i)
        ((h @ [item])[length h := item] ! i)"
      using assms i by (simp add: is_heap_def nth_append)
  next
    fix c assume "0 < length h \<and> 0 < c \<and> c < length (h @ [item]) \<and> parent c = length h"
    then have False by (auto simp: parent_child)
    then show "wp_le ((h @ [item]) ! parent (length h)) ((h @ [item]) ! c)" ..
  qed
  then show ?thesis
    by (simp add: heappush_def siftdown_def siftdown_loop_is_heap)
qed

lemma heappush_mset: "mset (heappush h item) = mset h + {#item#}"
  by (simp add: heappush_def siftdown_def siftdown_loop_mset)

lemma siftup_loop_unfold:
  "siftup_loop h pos =
     (if 2 * pos + 1 < length h
      then siftup_loop (h[pos := h ! smaller_child h pos]) (smaller_child h pos)
      else (h, pos))"
  by (subst siftup_loop.simps) (simp add: Let_def smaller_child_def)

lemma smaller_child_props:
  assumes "2 * pos + 1 < length h"
  shows "smaller_child h pos < length h" "pos < smaller_child h pos"
    "parent (smaller_child h pos) = pos"
    "0 < c \<Longrightarrow> c < length h \<Longrightarrow> parent c = pos \<Longrightarrow> wp_le (h ! smaller_child h pos) (h ! c)"
proof -
  show "smaller_child h pos < length h" "pos < smaller_child h pos"
    using assms by (simp_all add: smaller_child_def)
  show "parent (smaller_child h pos) = pos"
    by (simp add: smaller_child_def parent_child)
  assume c: "0 < c" "c < length h" "parent c = pos"
  then consider "c = 2 * pos + 1" | "c = 2 * pos + 2" by (auto simp: parent_child)
  then show "wp_le (h ! smaller_child h pos) (h ! c)"
  proof cases
    case 1
    then show ?thesis
      using wp_le_total [of "h ! (2 * pos + 1)" "h ! (2 * pos + 2)"]
      by (auto simp: smaller_child_def cmp_lt_iff)
  next
    case 2
    then show ?thesis
      using c(2) wp_le_total [of "h ! (2 * pos + 1)" "h ! (2 * pos + 2)"]
      by (auto simp: smaller_child_def cmp_lt_iff)
  qed
qed

lemma hole_down_step:
  assumes hd: "hole_down h pos" and ch: "2 * pos + 1 < length h"
  shows "hole_down (h[pos := h ! smaller_child h pos]) (smaller_child h pos)"
proof -
  define c where "c = smaller_child h pos"
  note p = smaller_child_props [OF ch, folded c_def]
  have len: "pos < length h" using hd by (simp add: hole_down_def)
  have e1: "wp_le (h ! parent i) (h ! i)"
    if "0 < i" "i < length h" "i \<noteq> pos" "parent i \<noteq> pos" for i
    using hd that by (simp add: hole_down_def)
  have e2: "wp_le (h ! parent pos) (h ! k)" if "0 < pos" "0 < k" "k < length h" "parent k = pos" for k
    using hd that by (simp add: hole_down_def)
  let ?h2 = "h[pos := h ! c]"
  have a: "wp_le (?h2 ! parent i) (?h2 ! i)"
    if i: "0 < i" "i < length h" "i \<noteq> c" "parent i \<noteq> c" for i
  proof (cases "i = pos")
    case True
    with i have "parent pos \<noteq> pos" by (intro less_imp_neq parent_less) simp
    moreover have "wp_le (h ! parent pos) (h ! c)"
      using e2 [of c] True i p by simp
    ultimately show ?thesis using True len by simp
  next
    case False
    show ?thesis
    proof (cases "parent i = pos")
      case True
      with p(4) [OF i(1,2)] False len show ?thesis by simp
    next
      case np: False
      with e1 [OF i(1,2) False] False show ?thesis by simp
    qed
  qed
  have b: "wp_le (?h2 ! parent c) (?h2 ! k)"
    if k: "0 < k" "k < length h" "parent k = c" for k
  proof -
    have "k \<noteq> pos" using k p(2) parent_less [of k] by auto
    moreover have "parent k \<noteq> pos" using k p(2) by simp
    ultimately have "wp_le (h ! c) (h ! k)" using e1 [OF k(1,2)] k(3) by simp
    with \<open>k \<noteq> pos\<close> p(3) len show ?thesis by simp
  qed
  from a b p(1) show ?thesis
    unfolding hole_down_def c_def [symmetric] by simp
qed

lemma siftup_loop_invariant:
  "hole_down h pos \<Longrightarrow> siftup_loop h pos = (h', leaf) \<Longrightarrow>
     hole_down h' leaf \<and> length h' = length h \<and> \<not> 2 * leaf + 1 < length h'
     \<and> (\<forall>x. mset (h'[leaf := x]) = mset (h[pos := x]))"
proof (induction "length h - pos" arbitrary: h pos rule: less_induct)
  case less
  show ?case
  proof (cases "2 * pos + 1 < length h")
    case False
    with less.prems show ?thesis by (simp add: siftup_loop_unfold [of h pos])
  next
    case True
    define c where "c = smaller_child h pos"
    note p = smaller_child_props [OF True, folded c_def]
    have len: "pos < length h" using less.prems(1) by (simp add: hole_down_def)
    have r: "siftup_loop (h[pos := h ! c]) c = (h', leaf)"
      using less.prems(2) True by (simp add: siftup_loop_unfold [of h pos] c_def)
    have "length (h[pos := h ! c]) - c < length h - pos" using p(1,2) by simp
    from less.hyps [OF this hole_down_step [OF less.prems(1) True, folded c_def] r]
    have ih: "hole_down h' leaf" "length h' = length h" "\<not> 2 * leaf + 1 < length h'"
      "\<And>x. mset (h'[leaf := x]) = mset (h[pos := h ! c, c := x])"
      by simp_all
    have "mset (h[pos := h ! c, c := x]) = mset (h[pos := x])" for x
      using len p(1,2) by (intro mset_move_hole) auto
    with ih show ?thesis by simp
  qed
qed

lemma siftup_root:
  assumes hd: "hole_down h 0"
  shows "is_heap (siftup h 0) \<and> mset (siftup h 0) = mset h"
proof -
  obtain h' leaf where l: "siftup_loop h 0 = (h', leaf)" by (cases "siftup_loop h 0")
  from siftup_loop_invariant [OF hd l]
  have inv: "hole_down h' leaf" "length h' = length h" "\<not> 2 * leaf + 1 < length h'"
    "\<And>x. mset (h'[leaf := x]) = mset (h[0 := x])"
    by simp_all
  define new where "new = h ! 0"
  define h2 where "h2 = h'[leaf := new]"
  have leaf: "leaf < length h'" using inv(1) by (simp add: hole_down_def)
  have nochild: "parent i \<noteq> leaf" if "0 < i" "i < length h'" for i
    using that inv(3) by (auto simp: parent_child)
  have "heap_hole h2 leaf new"
    unfolding heap_hole_def
  proof (intro conjI allI impI)
    show "leaf < length h2" using leaf by (simp add: h2_def)
  next
    fix i assume i: "0 < i \<and> i < length h2 \<and> i \<noteq> leaf"
    then have "wp_le (h' ! parent i) (h' ! i)"
      using inv(1) nochild [of i] by (simp add: hole_down_def h2_def)
    then show "wp_le (h2[leaf := new] ! parent i) (h2[leaf := new] ! i)"
      using i nochild [of i] by (simp add: h2_def)
  next
    fix c assume "0 < leaf \<and> 0 < c \<and> c < length h2 \<and> parent c = leaf"
    then have False using nochild [of c] by (simp add: h2_def)
    then show "wp_le (h2 ! parent leaf) (h2 ! c)" ..
  qed
  moreover have "siftup h 0 = siftdown_loop h2 0 leaf new"
    using leaf by (simp add: siftup_def siftdown_def l Let_def h2_def new_def)
  moreover have "mset (siftdown_loop h2 0 leaf new) = mset h"
    using leaf inv(4) [of new] by (simp add: siftdown_loop_mset h2_def new_def)
  ultimately show ?thesis by (simp add: siftdown_loop_is_heap)
qed

lemma heap_min: "is_heap h \<Longrightarrow> i < length h \<Longrightarrow> wp_le (h ! 0) (h ! i)"
proof (induction i rule: less_induct)
  case (less i)
  show ?case
  proof (cases "i = 0")
    case True
    then show ?thesis by simp
  next
    case False
    then have p: "parent i < i" by simp
    with less.prems have "wp_le (h ! 0) (h ! parent i)" by (intro less.IH) auto
    moreover have "wp_le (h ! parent i) (h ! i)"
      using less.prems False by (simp add: is_heap_def)
    ultimately show ?thesis by (rule wp_le_trans)
  qed
qed

lemma heappop_correct:
  assumes h: "is_heap heap" and ne: "heap \<noteq> []"
  shows "\<exists>rest. heappop heap = Inr (heap ! 0, rest) \<and> is_heap rest
           \<and> mset heap = add_mset (heap ! 0) (mset rest)"
proof (cases "butlast heap = []")
  case True
  with ne have "heap = [last heap]" by (metis append_butlast_last_id append_Nil)
  then obtain x where "heap = [x]" by blast
  then show ?thesis by (simp add: heappop_def)
next
  case False
  define heap0 where "heap0 = butlast heap"
  define lastelt where "lastelt = last heap"
  have heap: "heap = heap0 @ [lastelt]"
    using ne by (simp add: heap0_def lastelt_def)
  have h0: "heap0 \<noteq> []" using False by (simp add: heap0_def)
  have root: "heap ! 0 = heap0 ! 0" using h0 by (simp add: heap nth_append)
  have "hole_down (heap0[0 := lastelt]) 0"
    unfolding hole_down_def
  proof (intro conjI allI impI)
    show "0 < length (heap0[0 := lastelt])" using h0 by simp
  next
    fix i assume i: "0 < i \<and> i < length (heap0[0 := lastelt]) \<and> i \<noteq> 0 \<and> parent i \<noteq> 0"
    then have pl: "parent i < length heap0" using parent_le [of i] by auto
    from i have "0 < i \<and> i < length heap" by (simp add: heap)
    with h have "wp_le (heap ! parent i) (heap ! i)" unfolding is_heap_def by blast
    with i pl show "wp_le (heap0[0 := lastelt] ! parent i) (heap0[0 := lastelt] ! i)"
      by (simp add: heap nth_append)
  next
    fix c assume "(0::nat) < 0 \<and> 0 < c \<and> c < length (heap0[0 := lastelt]) \<and> parent c = 0"
    then show "wp_le (heap0[0 := lastelt] ! parent 0) (heap0[0 := lastelt] ! c)" by simp
  qed
  from siftup_root [OF this]
  have s: "is_heap (siftup (heap0[0 := lastelt]) 0)"
    "mset (siftup (heap0[0 := lastelt]) 0) = mset (heap0[0 := lastelt])"
    by simp_all
  have pop: "heappop heap = Inr (heap0 ! 0, siftup (heap0[0 := lastelt]) 0)"
    using ne h0 by (simp add: heappop_def Let_def heap0_def lastelt_def)
  have "add_mset (heap0 ! 0) (mset (heap0[0 := lastelt])) = mset heap"
    using h0 by (simp add: heap mset_update)
  with s pop root show ?thesis by simp
qed

lemma drain_Nil [simp]: "drain [] = []"
  by (subst drain.simps) (simp add: heappop_def)

lemma drain_sorted:
  "is_heap h \<Longrightarrow> sorted_wrt wp_le (drain h) \<and> mset (drain h) = mset h"
proof (induction "length h" arbitrary: h rule: less_induct)
  case less
  show ?case
  proof (cases "h = []")
    case True
    then show ?thesis by simp
  next
    case False
    from heappop_correct [OF less.prems False]
    obtain rest where pop: "heappop h = Inr (h ! 0, rest)" and hr: "is_heap rest"
      and ms: "mset h = add_mset (h ! 0) (mset rest)"
      by blast
    have "length rest < length h" using length_heappop [OF pop] by simp
    from less.hyps [OF this hr]
    have ih: "sorted_wrt wp_le (drain rest)" "mset (drain rest) = mset rest" by simp_all
    have d: "drain h = h ! 0 # drain rest"
      by (subst drain.simps) (simp add: pop)
    have "wp_le (h ! 0) y" if "y \<in> set (drain rest)" for y
    proof -
      from that ih(2) have "y \<in># mset rest" by (metis set_mset_mset)
      with ms have "y \<in> set h" by (metis set_mset_mset union_single_eq_member insert_iff set_mset_add_mset_insert)
      then obtain i where "i < length h" "h ! i = y" by (auto simp: in_set_conv_nth)
      with heap_min [OF less.prems] show ?thesis by auto
    qed
    with ih ms show ?thesis by (simp add: d)
  qed
qed

lemma add_waypoints_heap:
  "is_heap (queue s) \<Longrightarrow>
     is_heap (queue (add_waypoints s calls))
     \<and> mset (queue (add_waypoints s calls)) = mset (queue s) + mset (map waypoint_of calls)"
proof (induction s calls rule: add_waypoints.induct)
  case (1 s)
  then show ?case by simp
next
  case (2 s t n x y z sp rest)
  have "is_heap (queue (addwaypoint s t n x y z sp))"
    using 2(2) by (simp add: addwaypoint_def heappush_is_heap)
  from 2(1) [OF this] show ?case
    by (simp add: addwaypoint_def heappush_mset waypoint_of_def)
qed

lemma updatepoints_drain:
  "is_heap (queue s) \<Longrightarrow>
     drain (queue s) =
       takeWhile (\<lambda>w. time w \<le> now) (drain (queue s)) @ drain (queue (updatepoints s now))"
proof (induction s now rule: updatepoints.induct)
  case (1 s now)
  show ?case
  proof (cases "queue s = []")
    case True
    then show ?thesis by (subst updatepoints.simps) simp
  next
    case False
    from heappop_correct [OF 1(2) False]
    obtain rest where pop: "heappop (queue s) = Inr (queue s ! 0, rest)" and hr: "is_heap rest"
      by blast
    have d: "drain (queue s) = queue s ! 0 # drain rest"
      by (subst drain.simps) (simp add: pop)
    show ?thesis
    proof (cases "time (queue s ! 0) > now")
      case True
      then have "updatepoints s now = s"
        using False by (subst updatepoints.simps) simp
      with True show ?thesis by (simp add: d)
    next
      case le: False
      define s1 where "s1 = s\<lparr>queue := rest, points := (points s)(nodenum (queue s ! 0) \<mapsto> queue s ! 0)\<rparr>"
      have u: "updatepoints s now = updatepoints s1 now"
        using False le pop by (subst updatepoints.simps) (simp add: s1_def)
      have "drain (queue s1) =
          takeWhile (\<lambda>w. time w \<le> now) (drain (queue s1)) @ drain (queue (updatepoints s1 now))"
        using False le pop hr by (intro 1(1) [of "(queue s ! 0, rest)" "queue s ! 0" rest, folded s1_def])
          (simp_all add: s1_def)
      then show ?thesis using le by (simp add: d u s1_def)
    qed
  qed
qed

text \<open>
  Claim C8. For every sequence of \<open>addwaypoint\<close> calls on a new scheduler, draining the
  queue by repeated \<open>heappop\<close> yields every waypoint that was added, in non-decreasing
  time order, waypoints of equal time by ascending node id. \<open>updatepoints\<close> pops
  exactly the waypoints in front of that order whose time has come and leaves the others
  in the queue.
\<close>

theorem drain_in_time_order:
  "sorted_wrt wp_le (drain (queue (add_waypoints (init_mobility ifs positions) calls)))
   \<and> mset (drain (queue (add_waypoints (init_mobility ifs positions) calls)))
       = mset (map waypoint_of calls)
   \<and> drain (queue (add_waypoints (init_mobility ifs positions) calls))
       = takeWhile (\<lambda>w. time w \<le> now)
           (drain (queue (add_waypoints (init_mobility ifs positions) calls)))
         @ drain (queue (updatepoints
             (add_waypoints (init_mobility ifs positions) calls) now))"
proof -
  have "is_heap (queue (init_mobility ifs positions))"
    by (simp add: init_mobility_def)
  from add_waypoints_heap [OF this, of calls]
  have h: "is_heap (queue (add_waypoints (init_mobility ifs positions) calls))"
    and m: "mset (queue (add_waypoints (init_mobility ifs positions) calls))
        = mset (map waypoint_of calls)"
    by (simp_all add: init_mobility_def)
  from drain_sorted [OF h] m updatepoints_drain [OF h, of now] show ?thesis by simp
qed

lemma example_drain:
  "drain (queue (add_waypoints (init_mobility [] (\<lambda>n. (None, None, None))) example_calls))
     = [\<lparr>time = 1, nodenum = 3, coords = (Some 30, Some 30, None), speed = Scalar 1\<rparr>,
        \<lparr>time = 1, nodenum = 5, coords = (Some 20, Some 20, None), speed = Scalar 1\<rparr>,
        \<lparr>time = 2, nodenum = 1, coords = (Some 10, Some 10, None), speed = Scalar 1\<rparr>]"
  by (simp add: example_calls_def init_mobility_def addwaypoint_def heappush_def siftdown_def
      siftdown_loop.simps cmp_lt_def WayPoint_cmp_def cmp_def drain.simps heappop_def
      siftup_def siftup_loop.simps Let_def del: parent_fold)

theorem drain_in_time_order_witness:
  "sorted_wrt wp_le
     (drain (queue (add_waypoints (init_mobility [] (\<lambda>n. (None, None, None))) example_calls)))
   \<and> drain (queue (add_waypoints (init_mobility [] (\<lambda>n. (None, None, None))) example_calls))
     = [\<lparr>time = 1, nodenum = 3, coords = (Some 30, Some 30, None), speed = Scalar 1\<rparr>,
        \<lparr>time = 1, nodenum = 5, coords = (Some 20, Some 20, None), speed = Scalar 1\<rparr>,
        \<lparr>time = 2, nodenum = 1, coords = (Some 10, Some 10, None), speed = Scalar 1\<rparr>]"
  using drain_in_time_order [of "[]" "\<lambda>n. (None, None, None)" example_calls 0] example_drain
  by blast

end
